theory Spec2Isabelle
  imports Complex_Main "HOL-Library.Word"
begin

section \<open>Errors and byte buffers\<close>

text \<open>
  The exceptions the audio pipeline can raise. \<open>MalformedInputError\<close> and
  \<open>UnsupportedFormatError\<close> are the two errors of the codec and the decoder;
  \<open>InvalidStateError\<close> is the DOMException that the Web Audio nodes and contexts throw
  (\<open>stop()\<close> on a source that was never started, \<open>resume()\<close> on a closed context).
\<close>

datatype error = MalformedInputError | UnsupportedFormatError | InvalidStateError

text \<open>A \<open>Uint8Array\<close>: the raw byte buffer handed from the codec to the decoder.\<close>

type_synonym RawByteBuffer = "8 word list"

section \<open>Base64 codec (utils/audioUtils: decode)\<close>

text \<open>
  The module \<open>utils/audioUtils\<close>, from which both App components import \<open>decode\<close>,
  \<open>decodeAudioData\<close> and \<open>createWavBlob\<close>, is not among the source files. Its three
  functions are modelled from sections 4.1 to 4.3 of the specification.
\<close>

text \<open>
  Modelled from the spec: the alphabet of the base64 codec of section 4.1; the module
  \<open>utils/audioUtils\<close> that holds the codec is missing.
\<close>

definition alphabet :: string where
  "alphabet = ''ABCDEFGHIJKLMNOPQRSTUVWXYZabcdefghijklmnopqrstuvwxyz0123456789+/''"

text \<open>Modelled from the spec: the character of a 6-bit group (missing: \<open>utils/audioUtils\<close>).\<close>

definition sextet_char :: "nat \<Rightarrow> char" where
  "sextet_char n = alphabet ! n"

text \<open>Modelled from the spec: the 6-bit group of a character, if it is in the alphabet
  (missing: \<open>utils/audioUtils\<close>).\<close>

definition char_sextet :: "char \<Rightarrow> nat option" where
  "char_sextet c = map_of (zip alphabet [0..<64]) c"

text \<open>Modelled from the spec: the 6-bit groups of a byte sequence, most significant first
  (missing: the encoder of \<open>utils/audioUtils\<close>).\<close>

fun encode_sextets :: "RawByteBuffer \<Rightarrow> nat list" where
  "encode_sextets [] = []"
| "encode_sextets [a] = [unat a div 4, (unat a mod 4) * 16]"
| "encode_sextets [a, b] =
     [unat a div 4, (unat a mod 4) * 16 + unat b div 16, (unat b mod 16) * 4]"
| "encode_sextets (a # b # c # rest) =
     unat a div 4 # ((unat a mod 4) * 16 + unat b div 16)
       # ((unat b mod 16) * 4 + unat c div 64) # unat c mod 64 # encode_sextets rest"

text \<open>Modelled from the spec: \<open>encode(bytes) -> string\<close> of section 4.1, with canonical
  padding (missing: \<open>utils/audioUtils\<close>).\<close>

definition encode :: "RawByteBuffer \<Rightarrow> string" where
  "encode bytes =
     map sextet_char (encode_sextets bytes)
       @ replicate ((3 - length bytes mod 3) mod 3) (CHR ''='')"

text \<open>
  Modelled from the spec: the bytes of a sequence of 6-bit groups (missing: the decoder of
  \<open>utils/audioUtils\<close>). A single left-over group and non-zero left-over bits are
  malformed.
\<close>

fun decode_sextets :: "nat list \<Rightarrow> error + RawByteBuffer" where
  "decode_sextets [] = Inr []"
| "decode_sextets [p] = Inl MalformedInputError"
| "decode_sextets [p, q] =
     (if q mod 16 = 0 then Inr [of_nat (p * 4 + q div 16)] else Inl MalformedInputError)"
| "decode_sextets [p, q, r] =
     (if r mod 4 = 0
      then Inr [of_nat (p * 4 + q div 16), of_nat ((q mod 16) * 16 + r div 4)]
      else Inl MalformedInputError)"
| "decode_sextets (p # q # r # t # rest) =
     (case decode_sextets rest of
        Inl e \<Rightarrow> Inl e
      | Inr bytes \<Rightarrow>
          Inr (of_nat (p * 4 + q div 16) # of_nat ((q mod 16) * 16 + r div 4)
                 # of_nat ((r mod 4) * 64 + t) # bytes))"

text \<open>Modelled from the spec: the characters of a base64 string before its first \<open>=\<close>
  (missing: the decoder of \<open>utils/audioUtils\<close>).\<close>

definition body :: "string \<Rightarrow> string" where
  "body s = takeWhile (\<lambda>c. c \<noteq> CHR ''='') s"

text \<open>Modelled from the spec: the padding of a base64 string, from its first \<open>=\<close> on
  (missing: the decoder of \<open>utils/audioUtils\<close>).\<close>

definition padding :: "string \<Rightarrow> string" where
  "padding s = dropWhile (\<lambda>c. c \<noteq> CHR ''='') s"

text \<open>
  Modelled from the spec: the round trip of section 4.1 holds "modulo canonical padding",
  so padding is optional; when present it is one or two \<open>=\<close> at the very end and fills
  the string up to a multiple of four characters (missing: \<open>utils/audioUtils\<close>).
\<close>

definition padding_ok :: "string \<Rightarrow> bool" where
  "padding_ok s \<longleftrightarrow>
     padding s = [] \<or>
     ((padding s = ''='' \<or> padding s = ''=='') \<and> length s mod 4 = 0)"

text \<open>Modelled from the spec: \<open>decode(base64) -> RawByteBuffer\<close> of section 4.1, failing
  with \<open>MalformedInputError\<close> (missing: \<open>decode\<close> of \<open>utils/audioUtils\<close>).\<close>

definition decode :: "string \<Rightarrow> error + RawByteBuffer" where
  "decode s =
     (if padding_ok s
      then (case those (map char_sextet (body s)) of
              None \<Rightarrow> Inl MalformedInputError
            | Some ds \<Rightarrow> decode_sextets ds)
      else Inl MalformedInputError)"

text \<open>Modelled from the spec: the 6-bit group of the last character of a string, for the
  grammar of valid base64 (the spec names "valid base64" and does not define it).\<close>

definition last_sextet :: "string \<Rightarrow> nat" where
  "last_sextet b = (case char_sextet (last b) of None \<Rightarrow> 0 | Some n \<Rightarrow> n)"

text \<open>
  Modelled from the spec: valid base64, as a grammar that does not mention the decoder:
  alphabet characters, then optional well-placed padding; the characters do not leave a
  single 6-bit group over, and the bits of the last character that belong to no byte are
  zero.
\<close>

definition valid_base64 :: "string \<Rightarrow> bool" where
  "valid_base64 s \<longleftrightarrow>
     list_all (\<lambda>c. c \<in> set alphabet) (body s) \<and> padding_ok s \<and>
     (length (body s) mod 4 = 0 \<or>
      (length (body s) mod 4 = 2 \<and> last_sextet (body s) mod 16 = 0) \<or>
      (length (body s) mod 4 = 3 \<and> last_sextet (body s) mod 4 = 0))"

text \<open>Modelled from the spec: a string with its padding made canonical, for the law
  \<open>encode(decode(s)) == s\<close> "modulo canonical padding".\<close>

definition canonical_padding :: "string \<Rightarrow> string" where
  "canonical_padding s =
     body s @ replicate ((4 - length (body s) mod 4) mod 4) (CHR ''='')"

section \<open>PCM decoder (utils/audioUtils: decodeAudioData)\<close>

text \<open>
  Modelled from the spec: the SampleBuffer of section 3, the canonical in-memory audio:
  normalized amplitudes, one list per channel, tagged with the sample rate and the channel
  count. It is the \<open>AudioBuffer\<close> that the missing \<open>decodeAudioData\<close> returns.
\<close>

record SampleBuffer =
  sampleRate :: int
  numberOfChannels :: nat
  channelData :: "real list list"

text \<open>Modelled from the spec: a little-endian signed 16-bit integer from its two bytes
  (missing: \<open>decodeAudioData\<close> of \<open>utils/audioUtils\<close>).\<close>

definition int16_le :: "8 word \<Rightarrow> 8 word \<Rightarrow> int" where
  "int16_le lo hi =
     (let u = int (unat lo) + 256 * int (unat hi)
      in if u < 32768 then u else u - 65536)"

text \<open>
  Modelled from the spec: section 4.2 (missing: \<open>decodeAudioData\<close> of
  \<open>utils/audioUtils\<close>). Every consecutive pair of bytes is one sample, divided by
  32768.0; a trailing single byte is dropped. Division by a power of two is exact in
  binary floating point, so the real quotient is the value the float array holds.
\<close>

fun pcm_samples :: "RawByteBuffer \<Rightarrow> real list" where
  "pcm_samples (lo # hi # rest) = real_of_int (int16_le lo hi) / 32768 # pcm_samples rest"
| "pcm_samples [b] = []"
| "pcm_samples [] = []"

text \<open>
  Modelled from the spec: \<open>decodePcm(bytes, sampleRate, channelCount)\<close> of section 4.2
  (missing: \<open>decodeAudioData\<close> of \<open>utils/audioUtils\<close>). Samples that do not fill a
  whole frame are dropped; channel \<open>c\<close> receives samples \<open>c\<close>, \<open>c + channelCount\<close>, ...
  of the interleaved stream.
\<close>

definition decodePcm :: "RawByteBuffer \<Rightarrow> int \<Rightarrow> int \<Rightarrow> error + SampleBuffer" where
  "decodePcm bytes rate channelCount =
     (if rate \<le> 0 \<or> channelCount \<le> 0 then Inl UnsupportedFormatError
      else let samples = pcm_samples bytes;
               n = nat channelCount;
               frames = length samples div n
           in Inr \<lparr> sampleRate = rate, numberOfChannels = n,
                    channelData =
                      map (\<lambda>c. map (\<lambda>i. samples ! (i * n + c)) [0..<frames]) [0..<n] \<rparr>)"

text \<open>
  Modelled from the spec: \<open>decodeAudioData\<close>, the name under which the App components
  import the missing decoder, is \<open>decodePcm\<close>. Its second argument at the call sites,
  the \<open>AudioContext\<close>, only allocates the buffer and is left out.
\<close>

definition decodeAudioData :: "RawByteBuffer \<Rightarrow> int \<Rightarrow> int \<Rightarrow> error + SampleBuffer" where
  "decodeAudioData bytes rate numChannels = decodePcm bytes rate numChannels"

text \<open>
  Modelled from the spec: the value of \<open>decodeAudioData bytes 24000 1\<close> (lemma
  \<open>mono_decodeAudioData\<close>), named to keep the statements about the source nodes short.
\<close>

definition monoBuffer :: "RawByteBuffer \<Rightarrow> SampleBuffer" where
  "monoBuffer bytes =
     \<lparr>sampleRate = 24000, numberOfChannels = 1, channelData = [pcm_samples bytes]\<rparr>"

section \<open>WAV encoder (utils/audioUtils: createWavBlob)\<close>

text \<open>Modelled from the spec: a 16-bit little-endian field of the header; the value is
  taken modulo \<open>2 ^ 16\<close> (missing: \<open>createWavBlob\<close> of \<open>utils/audioUtils\<close>).\<close>

definition le16 :: "nat \<Rightarrow> RawByteBuffer" where
  "le16 n = [of_nat n, of_nat (n div 256)]"

text \<open>Modelled from the spec: a 32-bit little-endian field of the header; the value is
  taken modulo \<open>2 ^ 32\<close> (missing: \<open>createWavBlob\<close> of \<open>utils/audioUtils\<close>).\<close>

definition le32 :: "nat \<Rightarrow> RawByteBuffer" where
  "le32 n = [of_nat n, of_nat (n div 256), of_nat (n div 65536), of_nat (n div 16777216)]"

text \<open>Modelled from the spec: the bytes of a chunk identifier such as \<open>RIFF\<close>
  (missing: \<open>createWavBlob\<close> of \<open>utils/audioUtils\<close>).\<close>

definition ascii :: "string \<Rightarrow> RawByteBuffer" where
  "ascii s = map (\<lambda>c. of_nat (of_char c)) s"

text \<open>Reading a 16-bit little-endian field back from a file, to state what the header
  carries.\<close>

definition rd16 :: "RawByteBuffer \<Rightarrow> nat \<Rightarrow> nat" where
  "rd16 file off = unat (file ! off) + 256 * unat (file ! (off + 1))"

text \<open>Reading a 32-bit little-endian field back from a file.\<close>

definition rd32 :: "RawByteBuffer \<Rightarrow> nat \<Rightarrow> nat" where
  "rd32 file off =
     unat (file ! off) + 256 * unat (file ! (off + 1))
       + 65536 * unat (file ! (off + 2)) + 16777216 * unat (file ! (off + 3))"

text \<open>Modelled from the spec: the canonical 44-byte RIFF/WAVE header of section 4.3
  (missing: \<open>createWavBlob\<close> of \<open>utils/audioUtils\<close>).\<close>

definition wavHeader :: "nat \<Rightarrow> nat \<Rightarrow> nat \<Rightarrow> RawByteBuffer" where
  "wavHeader channelCount rate dataLen =
     ascii ''RIFF'' @ le32 (dataLen + 36) @ ascii ''WAVE''
       @ ascii ''fmt '' @ le32 16 @ le16 1 @ le16 channelCount @ le32 rate
       @ le32 (rate * channelCount * 2) @ le16 (channelCount * 2) @ le16 16
       @ ascii ''data'' @ le32 dataLen"

text \<open>
  Modelled from the spec: the encoder of section 4.3 accepts raw 16-bit PCM bytes (what the
  App components pass) or a normalized sample buffer.
\<close>

datatype WavInput = RawPcm RawByteBuffer | Samples SampleBuffer

text \<open>
  Modelled from the spec: re-quantization multiplies by 32767 and clamps to
  \<open>[-32768, 32767]\<close> (missing: \<open>utils/audioUtils\<close>). The spec does not say how the
  product is rounded to an integer, so the rounding \<open>rnd\<close> is a parameter.
\<close>

definition quantize :: "(real \<Rightarrow> int) \<Rightarrow> real \<Rightarrow> int" where
  "quantize rnd x = max (- 32768) (min 32767 (rnd (x * 32767)))"

text \<open>Modelled from the spec: a signed 16-bit sample as two little-endian bytes, in two's
  complement.\<close>

definition int16_bytes :: "int \<Rightarrow> RawByteBuffer" where
  "int16_bytes v = le16 (nat (v mod 65536))"

text \<open>Modelled from the spec: the number of frames of a sample buffer, the length of its
  first channel.\<close>

definition frameCount :: "SampleBuffer \<Rightarrow> nat" where
  "frameCount b = (case channelData b of [] \<Rightarrow> 0 | ch # _ \<Rightarrow> length ch)"

text \<open>Modelled from the spec: the samples of a buffer frame by frame, the channels of a
  frame side by side, as the data chunk stores them.\<close>

definition interleaved :: "SampleBuffer \<Rightarrow> real list" where
  "interleaved b =
     concat (map (\<lambda>i. map (\<lambda>c. channelData b ! c ! i) [0..<numberOfChannels b])
                 [0..<frameCount b])"

text \<open>Modelled from the spec: the channel count the header carries. Raw bytes come with no
  channel count; the payload format of section 6 is mono.\<close>

definition wavChannels :: "WavInput \<Rightarrow> nat" where
  "wavChannels inp = (case inp of RawPcm _ \<Rightarrow> 1 | Samples b \<Rightarrow> numberOfChannels b)"

text \<open>Modelled from the spec: the bytes of the data chunk; raw PCM is written as it is.\<close>

definition wavData :: "(real \<Rightarrow> int) \<Rightarrow> WavInput \<Rightarrow> RawByteBuffer" where
  "wavData rnd inp =
     (case inp of
        RawPcm bytes \<Rightarrow> bytes
      | Samples b \<Rightarrow> concat (map (\<lambda>x. int16_bytes (quantize rnd x)) (interleaved b)))"

text \<open>Modelled from the spec: the number of bytes of 16-bit PCM an input stands for, two
  per sample (\<open>dataByteLength\<close> in section 4.3).\<close>

definition dataByteLength :: "WavInput \<Rightarrow> nat" where
  "dataByteLength inp =
     (case inp of
        RawPcm bytes \<Rightarrow> length bytes
      | Samples b \<Rightarrow> 2 * (frameCount b * numberOfChannels b))"

text \<open>Modelled from the spec: \<open>encodeWav(samples | bytes, sampleRate) -> WavFile\<close> of
  section 4.3 (missing: \<open>createWavBlob\<close> of \<open>utils/audioUtils\<close>).\<close>

definition encodeWav :: "(real \<Rightarrow> int) \<Rightarrow> WavInput \<Rightarrow> nat \<Rightarrow> RawByteBuffer" where
  "encodeWav rnd inp rate =
     wavHeader (wavChannels inp) rate (length (wavData rnd inp)) @ wavData rnd inp"

text \<open>
  Modelled from the spec: \<open>createWavBlob\<close>, the name under which the App components
  import the missing encoder, is \<open>encodeWav\<close> on raw mono PCM bytes and a sample rate.
  No sample is re-quantized on this path, so the rounding is irrelevant.
\<close>

definition createWavBlob :: "RawByteBuffer \<Rightarrow> nat \<Rightarrow> RawByteBuffer" where
  "createWavBlob bytes rate = encodeWav floor (RawPcm bytes) rate"

section \<open>The Web Audio platform and the component state\<close>

text \<open>
  What the two App components keep between events: their \<open>useState\<close> cells, their two
  \<open>useRef\<close> cells, and the objects those refer to. An \<open>AudioContext\<close> and an
  \<open>AudioBufferSourceNode\<close> live in a store and are referred to by their index, because
  the refs, the \<open>onended\<close> closures and the platform all alias the same object:
  \<open>contexts\<close> and \<open>sources\<close> are the two stores, in the order of construction.
  \<open>mounted\<close> says that the component has not been unmounted; \<open>waiting\<close> holds the
  calls that wait at an \<open>await\<close>, in the order in which they began to wait.
\<close>

datatype AudioContextState = Suspended | Running | Closed

record AudioContext =
  ctxSampleRate :: int
  ctxState :: AudioContextState

text \<open>
  A source node can be started once. \<open>Stopped\<close>: \<open>stop()\<close> was called and the
  \<open>ended\<close> event is still to be dispatched; \<open>Ended\<close>: the event was dispatched.
\<close>

datatype PlayState = Unstarted | Playing | Stopped | Ended

record AudioBufferSourceNode =
  buffer :: SampleBuffer
  playState :: PlayState

datatype AppStatus = IDLE | UPLOADING | SAMPLING | ANALYZING | NARRATING | COMPLETED | ERROR

text \<open>\<open>NarrationResult & { genreDetected?: string }\<close>; an absent optional field is \<open>None\<close>.
  The field \<open>text\<close> is called \<open>narrationText\<close> here.\<close>

record NarrationResult =
  narrationText :: string
  audioData :: "string option"
  thinkingProcess :: "string option"
  genreDetected :: "string option"

text \<open>
  A call of \<open>startNewAudio\<close> or \<open>playAudio\<close> that has reached an \<open>await\<close> and has not
  been resumed, with what its closure needs to go on: at \<open>await ctx.resume()\<close> the
  payload still to be decoded, at \<open>await decodeAudioData(...)\<close> the buffer the promise
  resolves to. The functions are \<open>async\<close>: what follows an \<open>await\<close> runs in a later
  turn of the event loop, and other handlers can run before it.
\<close>

datatype Waiting = AwaitResume string | AwaitDecode SampleBuffer

record AppState =
  mounted :: bool
  status :: AppStatus
  videoUrl :: "string option"
  result :: "NarrationResult option"
  error :: "string option"
  isPlaying :: bool
  isPaused :: bool
  audioContextRef :: "nat option"
  activeSourceRef :: "nat option"
  contexts :: "AudioContext list"
  sources :: "AudioBufferSourceNode list"
  waiting :: "Waiting list"

definition initialState :: AppState where
  "initialState =
     \<lparr> mounted = True, status = IDLE, videoUrl = None, result = None, error = None,
       isPlaying = False, isPaused = False, audioContextRef = None, activeSourceRef = None,
       contexts = [], sources = [], waiting = [] \<rparr>"

text \<open>
  A handler either completes or throws; what it wrote to the refs and the stores before it
  threw stays written, so the state is returned in both cases.
\<close>

type_synonym outcome = "error option \<times> AppState"

definition andThen :: "outcome \<Rightarrow> (AppState \<Rightarrow> outcome) \<Rightarrow> outcome" where
  "andThen r f = (case fst r of Some e \<Rightarrow> r | None \<Rightarrow> f (snd r))"

text \<open>JavaScript truthiness of \<open>string | undefined\<close>: the empty string is falsy too.\<close>

definition truthy :: "string option \<Rightarrow> bool" where
  "truthy v = (case v of None \<Rightarrow> False | Some str \<Rightarrow> str \<noteq> [])"

text \<open>
  \<open>source.stop()\<close>: throws \<open>InvalidStateError\<close> on a node that was never started, halts a
  playing node, and does nothing on a node that has already finished.
\<close>

definition source_stop :: "nat \<Rightarrow> AppState \<Rightarrow> outcome" where
  "source_stop i s =
     (if i < length (sources s)
      then (case playState (sources s ! i) of
              Unstarted \<Rightarrow> (Some InvalidStateError, s)
            | Playing \<Rightarrow>
                (None, s\<lparr>sources := (sources s)[i := (sources s ! i)\<lparr>playState := Stopped\<rparr>]\<rparr>)
            | Stopped \<Rightarrow> (None, s)
            | Ended \<Rightarrow> (None, s))
      else (None, s))"

text \<open>\<open>source.start(0)\<close>: a node starts once; a second start throws.\<close>

definition source_start :: "nat \<Rightarrow> AppState \<Rightarrow> outcome" where
  "source_start i s =
     (if i < length (sources s)
      then (case playState (sources s ! i) of
              Unstarted \<Rightarrow>
                (None, s\<lparr>sources := (sources s)[i := (sources s ! i)\<lparr>playState := Playing\<rparr>]\<rparr>)
            | Playing \<Rightarrow> (Some InvalidStateError, s)
            | Stopped \<Rightarrow> (Some InvalidStateError, s)
            | Ended \<Rightarrow> (Some InvalidStateError, s))
      else (None, s))"

definition context_state :: "AppState \<Rightarrow> nat \<Rightarrow> AudioContextState option" where
  "context_state s c = (if c < length (contexts s) then Some (ctxState (contexts s ! c)) else None)"

definition set_context_state :: "nat \<Rightarrow> AudioContextState \<Rightarrow> AppState \<Rightarrow> AppState" where
  "set_context_state c st s =
     (if c < length (contexts s)
      then s\<lparr>contexts := (contexts s)[c := (contexts s ! c)\<lparr>ctxState := st\<rparr>]\<rparr>
      else s)"

text \<open>\<open>ctx.resume()\<close> and \<open>ctx.suspend()\<close>: rejected on a closed context. The state
  change is taken at the call; the model does not interleave other events with it.\<close>

definition context_resume :: "nat \<Rightarrow> AppState \<Rightarrow> outcome" where
  "context_resume c s =
     (if context_state s c = Some Closed then (Some InvalidStateError, s)
      else (None, set_context_state c Running s))"

definition context_suspend :: "nat \<Rightarrow> AppState \<Rightarrow> outcome" where
  "context_suspend c s =
     (if context_state s c = Some Closed then (Some InvalidStateError, s)
      else (None, set_context_state c Suspended s))"

text \<open>
  \<open>new AudioContext({ sampleRate: 24000 })\<close> behind the \<open>if (!audioContextRef.current)\<close>
  guard that both components use. A context is constructed suspended.
\<close>

definition ensureAudioContext :: "AppState \<Rightarrow> AppState" where
  "ensureAudioContext s =
     (case audioContextRef s of
        None \<Rightarrow>
          s\<lparr>contexts := contexts s @ [\<lparr>ctxSampleRate = 24000, ctxState = Suspended\<rparr>],
            audioContextRef := Some (length (contexts s))\<rparr>
      | Some c \<Rightarrow> s)"

text \<open>The source nodes that are producing sound, by index.\<close>

definition playing_ids :: "AppState \<Rightarrow> nat list" where
  "playing_ids s = filter (\<lambda>i. playState (sources s ! i) = Playing) [0..<length (sources s)]"

definition source_state :: "AppState \<Rightarrow> nat \<Rightarrow> PlayState option" where
  "source_state s i = (if i < length (sources s) then Some (playState (sources s ! i)) else None)"

section \<open>The App component with full playback controls\<close>

text \<open>
  \<open>stopAudio\<close>. The \<open>try { ... } catch (e) {}\<close> around \<open>stop()\<close> discards the exception,
  and the promise of \<open>resume()\<close> is not awaited, so neither error reaches the caller:
  only the state of each call is kept.
\<close>

definition stopAudio :: "AppState \<Rightarrow> outcome" where
  "stopAudio s =
     (let s1 = (case activeSourceRef s of
                  None \<Rightarrow> s
                | Some i \<Rightarrow> (snd (source_stop i s))\<lparr>activeSourceRef := None\<rparr>);
          s2 = (case audioContextRef s1 of
                  None \<Rightarrow> s1
                | Some c \<Rightarrow>
                    if context_state s1 c = Some Suspended
                    then snd (context_resume c s1) else s1)
      in (None, s2\<lparr>isPlaying := False, isPaused := False\<rparr>))"

text \<open>
  The statements of \<open>startNewAudio\<close> before \<open>const bytes = decode(base64)\<close>: stop what
  is playing, create the context on first use, resume it when it is suspended.
\<close>

definition startNewAudio_prepare :: "AppState \<Rightarrow> outcome" where
  "startNewAudio_prepare s =
     andThen (stopAudio s) (\<lambda>s1.
       let s2 = ensureAudioContext s1
       in case audioContextRef s2 of
            None \<Rightarrow> (None, s2)
          | Some c \<Rightarrow>
              if context_state s2 c = Some Suspended then context_resume c s2 else (None, s2))"

text \<open>
  \<open>startNewAudio\<close> after the decoder resolved: a new source node with the decoded
  buffer, connected, with its \<open>onended\<close> handler, stored in the ref and started.
\<close>

definition startNewAudio_attach :: "SampleBuffer \<Rightarrow> AppState \<Rightarrow> outcome" where
  "startNewAudio_attach audioBuffer s =
     (let i = length (sources s);
          s1 = s\<lparr>sources := sources s @ [\<lparr>buffer = audioBuffer, playState = Unstarted\<rparr>]\<rparr>;
          s2 = s1\<lparr>activeSourceRef := Some i\<rparr>
      in andThen (source_start i s2) (\<lambda>s3. (None, s3\<lparr>isPlaying := True, isPaused := False\<rparr>)))"

text \<open>
  The whole of \<open>startNewAudio\<close> in the one schedule in which every \<open>await\<close> of the call
  is resumed before any other handler runs (lemma \<open>startNewAudio_uninterrupted\<close>). The
  events below do not run it: they run \<open>startNewAudio_call\<close> and
  \<open>startNewAudio_resumed\<close>, between which other events can come.
\<close>

definition startNewAudio :: "string \<Rightarrow> AppState \<Rightarrow> outcome" where
  "startNewAudio base64 s =
     andThen (startNewAudio_prepare s) (\<lambda>s1.
       case decode base64 of
         Inl e \<Rightarrow> (Some e, s1)
       | Inr bytes \<Rightarrow>
           (case decodeAudioData bytes 24000 1 of
              Inl e \<Rightarrow> (Some e, s1)
            | Inr audioBuffer \<Rightarrow> startNewAudio_attach audioBuffer s1))"

text \<open>
  From \<open>const bytes = decode(base64)\<close> to \<open>await decodeAudioData(bytes, ctx, 24000, 1)\<close>:
  an exception ends the call (its promise rejects); otherwise the call waits for the
  decoded buffer.
\<close>

definition startNewAudio_decode :: "string \<Rightarrow> AppState \<Rightarrow> outcome" where
  "startNewAudio_decode base64 s =
     (case decode base64 of
        Inl e \<Rightarrow> (Some e, s)
      | Inr bytes \<Rightarrow>
          (case decodeAudioData bytes 24000 1 of
             Inl e \<Rightarrow> (Some e, s)
           | Inr audioBuffer \<Rightarrow> (None, s\<lparr>waiting := waiting s @ [AwaitDecode audioBuffer]\<rparr>)))"

text \<open>
  What runs when \<open>startNewAudio(base64)\<close> is called, up to the first \<open>await\<close> it
  reaches: \<open>await ctx.resume()\<close> when the context is suspended, \<open>await
  decodeAudioData(...)\<close> otherwise. The new source does not exist yet and
  \<open>activeSourceRef\<close> is empty while the call waits.
\<close>

definition startNewAudio_call :: "string \<Rightarrow> AppState \<Rightarrow> outcome" where
  "startNewAudio_call base64 s =
     andThen (stopAudio s) (\<lambda>s1.
       let s2 = ensureAudioContext s1
       in case audioContextRef s2 of
            None \<Rightarrow> (None, s2)
          | Some c \<Rightarrow>
              if context_state s2 c = Some Suspended
              then andThen (context_resume c s2)
                     (\<lambda>s3. (None, s3\<lparr>waiting := waiting s3 @ [AwaitResume base64]\<rparr>))
              else startNewAudio_decode base64 s2)"

text \<open>
  The waiting call number \<open>k\<close> is resumed: after \<open>await ctx.resume()\<close> it decodes and
  waits again, after \<open>await decodeAudioData(...)\<close> it creates, tracks and starts its
  source. Nothing in it looks at what happened while it waited.
\<close>

definition startNewAudio_resumed :: "nat \<Rightarrow> AppState \<Rightarrow> outcome" where
  "startNewAudio_resumed k s =
     (if k < length (waiting s)
      then let s1 = s\<lparr>waiting := take k (waiting s) @ drop (Suc k) (waiting s)\<rparr>
           in case waiting s ! k of
                AwaitResume base64 \<Rightarrow> startNewAudio_decode base64 s1
              | AwaitDecode audioBuffer \<Rightarrow> startNewAudio_attach audioBuffer s1
      else (None, s))"

text \<open>The \<open>onended\<close> handler that \<open>startNewAudio\<close> installs on every source.\<close>

definition startNewAudio_onended :: "AppState \<Rightarrow> AppState" where
  "startNewAudio_onended s = s\<lparr>isPlaying := False, isPaused := False, activeSourceRef := None\<rparr>"

text \<open>
  The platform dispatching \<open>ended\<close> on source \<open>i\<close>: once per node, after it played to the
  end of its buffer or was stopped. The node's handler runs on the state of that moment.
\<close>

definition ended_event :: "(AppState \<Rightarrow> AppState) \<Rightarrow> nat \<Rightarrow> AppState \<Rightarrow> AppState" where
  "ended_event handler i s =
     (if i < length (sources s) \<and>
         (playState (sources s ! i) = Playing \<or> playState (sources s ! i) = Stopped)
      then handler (s\<lparr>sources := (sources s)[i := (sources s ! i)\<lparr>playState := Ended\<rparr>]\<rparr>)
      else s)"

text \<open>
  \<open>togglePlayback\<close>. The two setters that follow \<open>await ctx.resume()\<close> and
  \<open>await ctx.suspend()\<close> are taken with the call; its third branch calls
  \<open>startNewAudio\<close> without \<open>await\<close> and ends while that call waits.
\<close>

definition togglePlayback :: "AppState \<Rightarrow> outcome" where
  "togglePlayback s =
     (case audioContextRef s of
        None \<Rightarrow> (None, s)
      | Some c \<Rightarrow>
          if isPaused s
          then andThen (context_resume c s) (\<lambda>s1. (None, s1\<lparr>isPaused := False, isPlaying := True\<rparr>))
          else if isPlaying s
          then andThen (context_suspend c s) (\<lambda>s1. (None, s1\<lparr>isPaused := True, isPlaying := False\<rparr>))
          else (case result s of
                  None \<Rightarrow> (None, s)
                | Some r \<Rightarrow>
                    (case audioData r of
                       None \<Rightarrow> (None, s)
                     | Some base64 \<Rightarrow>
                         if base64 \<noteq> [] then startNewAudio_call base64 s else (None, s))))"

text \<open>\<open>downloadAudio\<close>: the bytes of the exported file, or nothing on the early return.\<close>

definition downloadAudio :: "AppState \<Rightarrow> error + RawByteBuffer option" where
  "downloadAudio s =
     (case result s of
        None \<Rightarrow> Inr None
      | Some r \<Rightarrow>
          if \<not> truthy (audioData r) then Inr None
          else (case audioData r of
                  None \<Rightarrow> Inr None
                | Some base64 \<Rightarrow>
                    (case decode base64 of
                       Inl e \<Rightarrow> Inl e
                     | Inr bytes \<Rightarrow> Inr (Some (createWavBlob bytes 24000)))))"

definition clearResults :: "AppState \<Rightarrow> AppState" where
  "clearResults s = (snd (stopAudio s))\<lparr>result := None, error := None, status := IDLE\<rparr>"

definition resetAll :: "AppState \<Rightarrow> AppState" where
  "resetAll s =
     (snd (stopAudio s))\<lparr>result := None, error := None, status := IDLE, videoUrl := None\<rparr>"

definition handleFileUpload :: "string \<Rightarrow> AppState \<Rightarrow> AppState" where
  "handleFileUpload url s = (resetAll s)\<lparr>videoUrl := Some url\<rparr>"

text \<open>
  \<open>processVideo\<close>, with what the two collaborators answered as arguments: \<open>Inl msg\<close> is a
  rejection with \<open>err.message = msg\<close>, \<open>Inr\<close> the resolved value of \<open>analyzeVideo\<close>
  (narration, analysis, genre) and of \<open>generateSpeech\<close> (the payload or \<open>undefined\<close>).
  \<open>startNewAudio\<close> is called without \<open>await\<close>, so an exception inside it does not reach
  the \<open>catch\<close>, and the handler ends while that call waits. The default message is
  written without its accents.
\<close>

definition defaultErrorMessage :: string where
  "defaultErrorMessage = ''Error al procesar el video. Intentalo de nuevo.''"

definition processVideo ::
  "string + string \<times> string \<times> string \<Rightarrow> string + string option \<Rightarrow> AppState \<Rightarrow> AppState" where
  "processVideo analysis speech s =
     (if videoUrl s = None then s
      else let failed = (\<lambda>msg. s\<lparr>error := Some (if msg = [] then defaultErrorMessage else msg),
                                   status := ERROR\<rparr>)
           in case analysis of
                Inl msg \<Rightarrow> failed msg
              | Inr (narration, analysisText, genre) \<Rightarrow>
                  (case speech of
                     Inl msg \<Rightarrow> failed msg
                   | Inr audioBase64 \<Rightarrow>
                       let s1 = s\<lparr>result := Some \<lparr> narrationText = narration,
                                                  audioData = audioBase64,
                                                  thinkingProcess = Some analysisText,
                                                  genreDetected = Some genre \<rparr>,
                                   status := COMPLETED\<rparr>
                       in (case audioBase64 of
                             None \<Rightarrow> s1
                           | Some base64 \<Rightarrow>
                               if base64 \<noteq> [] then snd (startNewAudio_call base64 s1) else s1)))"

text \<open>The cleanup of the \<open>useEffect\<close>: the context is closed when the component unmounts.\<close>

definition unmount :: "AppState \<Rightarrow> AppState" where
  "unmount s =
     (case audioContextRef s of
        None \<Rightarrow> s\<lparr>mounted := False\<rparr>
      | Some c \<Rightarrow> (set_context_state c Closed s)\<lparr>mounted := False\<rparr>)"

text \<open>What the JSX renders: \<open>{result && ... {result.audioData && (three buttons)}}\<close>.\<close>

definition audio_controls_rendered :: "AppState \<Rightarrow> bool" where
  "audio_controls_rendered s = (case result s of None \<Rightarrow> False | Some r \<Rightarrow> truthy (audioData r))"

definition process_button_enabled :: "AppState \<Rightarrow> bool" where
  "process_button_enabled s \<longleftrightarrow> videoUrl s \<noteq> None \<and> (status s = IDLE \<or> status s = COMPLETED)"

text \<open>
  The events the mounted component can receive. A click reaches its handler only when the
  control is rendered and enabled; \<open>SourceEnded\<close> is the platform's \<open>ended\<close> event;
  \<open>PlayResumed k\<close> is the promise that the waiting call number \<open>k\<close> awaits being
  settled, which no unmount cancels.
\<close>

datatype Event =
    FileUpload string
  | ProcessVideo "string + string \<times> string \<times> string" "string + string option"
  | TogglePlayback
  | StopAudio
  | DownloadAudio
  | ClearResults
  | ResetAll
  | SourceEnded nat
  | PlayResumed nat
  | Unmount

fun step :: "Event \<Rightarrow> AppState \<Rightarrow> AppState" where
  "step (FileUpload url) s = (if mounted s \<and> videoUrl s = None then handleFileUpload url s else s)"
| "step (ProcessVideo analysis speech) s =
     (if mounted s \<and> process_button_enabled s then processVideo analysis speech s else s)"
| "step TogglePlayback s =
     (if mounted s \<and> audio_controls_rendered s then snd (togglePlayback s) else s)"
| "step StopAudio s = (if mounted s \<and> audio_controls_rendered s then snd (stopAudio s) else s)"
| "step DownloadAudio s = s"
| "step ClearResults s = (if mounted s \<and> result s \<noteq> None then clearResults s else s)"
| "step ResetAll s = (if mounted s \<and> videoUrl s \<noteq> None then resetAll s else s)"
| "step (SourceEnded i) s = (if mounted s then ended_event startNewAudio_onended i s else s)"
| "step (PlayResumed k) s = snd (startNewAudio_resumed k s)"
| "step Unmount s = (if mounted s then unmount s else s)"

definition run :: "Event list \<Rightarrow> AppState \<Rightarrow> AppState" where
  "run es s = fold step es s"

section \<open>The desktop App component\<close>

text \<open>
  The second App component has one play button and no pause or stop. It shares the shape
  of the state; \<open>isPaused\<close> is never written.
\<close>

text \<open>
  Modelled from the spec: \<open>decode\<close> on the run-time value of a \<open>string | undefined\<close>
  (missing: \<open>decode\<close> of \<open>utils/audioUtils\<close>). \<open>undefined\<close> is not valid base64, and
  the decoder fails on everything that is not.
\<close>

definition decode_value :: "string option \<Rightarrow> error + RawByteBuffer" where
  "decode_value v = (case v of None \<Rightarrow> Inl MalformedInputError | Some base64 \<Rightarrow> decode base64)"

text \<open>
  \<open>playAudio\<close>. It is declared on a \<open>string\<close>, but the play button passes
  \<open>result.audioData!\<close>, whose value at run time can be \<open>undefined\<close>: the argument is a
  \<open>string option\<close>. Its \<open>stop()\<close> is not inside a \<open>try\<close>, so an exception there ends
  the call. This is the whole call in the one schedule in which its \<open>await\<close> is resumed
  before any other handler runs (lemma \<open>playAudio_uninterrupted\<close>); the events below run
  \<open>playAudio_call\<close> and \<open>playAudio_resumed\<close>.
\<close>

definition playAudio :: "string option \<Rightarrow> AppState \<Rightarrow> outcome" where
  "playAudio base64 s =
     andThen (case activeSourceRef s of None \<Rightarrow> (None, s) | Some i \<Rightarrow> source_stop i s) (\<lambda>s1.
       let s2 = ensureAudioContext s1
       in case decode_value base64 of
            Inl e \<Rightarrow> (Some e, s2)
          | Inr bytes \<Rightarrow>
              (case decodeAudioData bytes 24000 1 of
                 Inl e \<Rightarrow> (Some e, s2)
               | Inr audioBuffer \<Rightarrow>
                   let i = length (sources s2);
                       s3 = s2\<lparr>sources := sources s2
                                  @ [\<lparr>buffer = audioBuffer, playState = Unstarted\<rparr>]\<rparr>;
                       s4 = s3\<lparr>activeSourceRef := Some i\<rparr>
                   in andThen (source_start i s4) (\<lambda>s5. (None, s5\<lparr>isPlaying := True\<rparr>))))"

text \<open>
  What runs when \<open>playAudio(base64)\<close> is called, up to its only \<open>await\<close>:
  \<open>decode(base64)\<close> is an argument of the awaited call and so is evaluated before the
  call waits.
\<close>

definition playAudio_call :: "string option \<Rightarrow> AppState \<Rightarrow> outcome" where
  "playAudio_call base64 s =
     andThen (case activeSourceRef s of None \<Rightarrow> (None, s) | Some i \<Rightarrow> source_stop i s) (\<lambda>s1.
       let s2 = ensureAudioContext s1
       in case decode_value base64 of
            Inl e \<Rightarrow> (Some e, s2)
          | Inr bytes \<Rightarrow>
              (case decodeAudioData bytes 24000 1 of
                 Inl e \<Rightarrow> (Some e, s2)
               | Inr audioBuffer \<Rightarrow>
                   (None, s2\<lparr>waiting := waiting s2 @ [AwaitDecode audioBuffer]\<rparr>)))"

text \<open>\<open>playAudio\<close> after the decoder resolved.\<close>

definition playAudio_attach :: "SampleBuffer \<Rightarrow> AppState \<Rightarrow> outcome" where
  "playAudio_attach audioBuffer s =
     (let i = length (sources s);
          s1 = s\<lparr>sources := sources s @ [\<lparr>buffer = audioBuffer, playState = Unstarted\<rparr>]\<rparr>;
          s2 = s1\<lparr>activeSourceRef := Some i\<rparr>
      in andThen (source_start i s2) (\<lambda>s3. (None, s3\<lparr>isPlaying := True\<rparr>)))"

text \<open>
  The waiting call number \<open>k\<close> of \<open>playAudio\<close> is resumed. \<open>playAudio\<close> never waits for
  \<open>resume()\<close>, so this component holds no \<open>AwaitResume\<close>.
\<close>

definition playAudio_resumed :: "nat \<Rightarrow> AppState \<Rightarrow> outcome" where
  "playAudio_resumed k s =
     (if k < length (waiting s)
      then (case waiting s ! k of
              AwaitResume base64 \<Rightarrow> (None, s)
            | AwaitDecode audioBuffer \<Rightarrow>
                playAudio_attach audioBuffer
                  (s\<lparr>waiting := take k (waiting s) @ drop (Suc k) (waiting s)\<rparr>))
      else (None, s))"

text \<open>The \<open>onended\<close> handler that \<open>playAudio\<close> installs.\<close>

definition playAudio_onended :: "AppState \<Rightarrow> AppState" where
  "playAudio_onended s = s\<lparr>isPlaying := False\<rparr>"

definition desktopErrorMessage :: string where
  "desktopErrorMessage = ''Error en el proceso. Revisa tu conexion.''"

definition desktop_processVideo ::
  "string + string \<times> string \<times> string \<Rightarrow> string + string option \<Rightarrow> AppState \<Rightarrow> AppState" where
  "desktop_processVideo analysis speech s =
     (if videoUrl s = None then s
      else let failed = s\<lparr>error := Some desktopErrorMessage, status := ERROR\<rparr>
           in case analysis of
                Inl msg \<Rightarrow> failed
              | Inr (narration, analysisText, genre) \<Rightarrow>
                  (case speech of
                     Inl msg \<Rightarrow> failed
                   | Inr audioBase64 \<Rightarrow>
                       let s1 = s\<lparr>result := Some \<lparr> narrationText = narration,
                                                  audioData = audioBase64,
                                                  thinkingProcess = Some analysisText,
                                                  genreDetected = Some genre \<rparr>,
                                   status := COMPLETED\<rparr>
                       in (case audioBase64 of
                             None \<Rightarrow> s1
                           | Some base64 \<Rightarrow>
                               if base64 \<noteq> [] then snd (playAudio_call (Some base64) s1) else s1)))"

text \<open>The JSX of the desktop component: \<open>{result && (... Reproducir ... Descargar ...)}\<close>.\<close>

definition desktop_audio_controls_rendered :: "AppState \<Rightarrow> bool" where
  "desktop_audio_controls_rendered s \<longleftrightarrow> result s \<noteq> None"

definition reproducir_click :: "AppState \<Rightarrow> outcome" where
  "reproducir_click s =
     (case result s of None \<Rightarrow> (None, s) | Some r \<Rightarrow> playAudio_call (audioData r) s)"

definition descargar_click :: "AppState \<Rightarrow> error + RawByteBuffer option" where
  "descargar_click s =
     (case result s of
        None \<Rightarrow> Inr None
      | Some r \<Rightarrow>
          (case decode_value (audioData r) of
             Inl e \<Rightarrow> Inl e
           | Inr bytes \<Rightarrow> Inr (Some (createWavBlob bytes 24000))))"

definition desktop_handleFileUpload :: "string \<Rightarrow> AppState \<Rightarrow> AppState" where
  "desktop_handleFileUpload url s = s\<lparr>videoUrl := Some url, result := None, status := IDLE\<rparr>"

text \<open>
  The events of the desktop component. \<open>ContextStarted\<close> is the platform letting a newly
  constructed context run: this component never resumes a context itself.
  \<open>DPlayResumed k\<close> is the promise that the waiting call number \<open>k\<close> awaits being
  settled.
\<close>

datatype DesktopEvent =
    DFileUpload string
  | DCloseVideo
  | DProcessVideo "string + string \<times> string \<times> string" "string + string option"
  | Reproducir
  | Descargar
  | DSourceEnded nat
  | DPlayResumed nat
  | ContextStarted

fun desktop_step :: "DesktopEvent \<Rightarrow> AppState \<Rightarrow> AppState" where
  "desktop_step (DFileUpload url) s = (if videoUrl s = None then desktop_handleFileUpload url s else s)"
| "desktop_step DCloseVideo s = (if videoUrl s \<noteq> None then s\<lparr>videoUrl := None\<rparr> else s)"
| "desktop_step (DProcessVideo analysis speech) s =
     (if status s = IDLE \<or> status s = COMPLETED then desktop_processVideo analysis speech s else s)"
| "desktop_step Reproducir s =
     (if desktop_audio_controls_rendered s then snd (reproducir_click s) else s)"
| "desktop_step Descargar s = s"
| "desktop_step (DSourceEnded i) s = ended_event playAudio_onended i s"
| "desktop_step (DPlayResumed k) s = snd (playAudio_resumed k s)"
| "desktop_step ContextStarted s =
     (case audioContextRef s of
        None \<Rightarrow> s
      | Some c \<Rightarrow> if context_state s c = Some Suspended then set_context_state c Running s else s)"

definition desktop_run :: "DesktopEvent list \<Rightarrow> AppState \<Rightarrow> AppState" where
  "desktop_run es s = fold desktop_step es s"

section \<open>An invariant of the context store\<close>

text \<open>
  Either no context was constructed and the ref is empty, or exactly one was and the ref
  holds it.
\<close>

definition context_singleton :: "AppState \<Rightarrow> bool" where
  "context_singleton s =
     (case audioContextRef s of
        None \<Rightarrow> length (contexts s) = 0
      | Some c \<Rightarrow> c = 0 \<and> length (contexts s) = 1)"

section \<open>Concrete states and runs\<close>


text \<open>Paused playback: one narration started from the initial state, then paused.\<close>

definition pausedPlayback :: AppState where
  "pausedPlayback = snd (togglePlayback (snd (startNewAudio ''AAAA'' initialState)))"

text \<open>One narration playing, in each of the two components.\<close>

definition oneNarrationPlaying :: AppState where
  "oneNarrationPlaying = snd (startNewAudio ''AAAA'' initialState)"

definition desktopNarrationPlaying :: AppState where
  "desktopNarrationPlaying = snd (playAudio (Some ''AAAA'') initialState)"

text \<open>
  Two narrations generated one after the other while the first still plays; in the desktop
  component, a narration and a click on the play button while it plays. Every play is
  resumed before the next event: the first play of \<open>startNewAudio\<close> waits twice, for the
  new context to resume and for the decoder, every other play once.
\<close>

definition twoNarrations :: "Event list" where
  "twoNarrations =
     [FileUpload ''clip.mp4'',
      ProcessVideo (Inr (''uno'', ''analisis'', ''Deportes'')) (Inr (Some ''AAAA'')),
      PlayResumed 0, PlayResumed 0,
      ProcessVideo (Inr (''dos'', ''analisis'', ''Deportes'')) (Inr (Some ''AAAB'')),
      PlayResumed 0]"

definition desktopTwoNarrations :: "DesktopEvent list" where
  "desktopTwoNarrations =
     [DFileUpload ''clip.mp4'',
      DProcessVideo (Inr (''uno'', ''analisis'', ''Deportes'')) (Inr (Some ''AAAA'')),
      DPlayResumed 0,
      Reproducir,
      DPlayResumed 0]"

text \<open>
  The first narration of a session: its play waits for the new context to resume, the
  play button is rendered and shows that nothing plays, and a click on it starts a second
  call before the first is resumed. In the desktop component, a click on the play button
  while the play that \<open>processVideo\<close> started waits for the decoder.
\<close>

definition playClickedWhilePlayWaits :: "Event list" where
  "playClickedWhilePlayWaits =
     [FileUpload ''clip.mp4'',
      ProcessVideo (Inr (''uno'', ''analisis'', ''Deportes'')) (Inr (Some ''AAAA'')),
      TogglePlayback,
      PlayResumed 0, PlayResumed 0, PlayResumed 0]"

definition desktopPlayClickedWhilePlayWaits :: "DesktopEvent list" where
  "desktopPlayClickedWhilePlayWaits =
     [DFileUpload ''clip.mp4'',
      DProcessVideo (Inr (''uno'', ''analisis'', ''Deportes'')) (Inr (Some ''AAAA'')),
      Reproducir,
      DPlayResumed 0, DPlayResumed 0]"

text \<open>
  A narration for which the speech service returned no audio, in each of the two
  components.
\<close>

definition desktopNoAudio :: AppState where
  "desktopNoAudio =
     desktop_run [DFileUpload ''clip.mp4'',
                  DProcessVideo (Inr (''uno'', ''analisis'', ''Deportes'')) (Inr None)]
       initialState"

definition narrationWithoutAudio :: AppState where
  "narrationWithoutAudio =
     run [FileUpload ''clip.mp4'',
          ProcessVideo (Inr (''uno'', ''analisis'', ''Deportes'')) (Inr None)]
       initialState"

section \<open>The playback controller: basic facts\<close>

lemma andThen_None [simp]: "andThen (None, s) f = f s"
  by (simp add: andThen_def)

lemma andThen_Some [simp]: "andThen (Some e, s) f = (Some e, s)"
  by (simp add: andThen_def)

lemma context_state_set [simp]:
  "context_state (set_context_state c st s) c' =
     (if c' = c \<and> c < length (contexts s) then Some st else context_state s c')"
  by (auto simp: context_state_def set_context_state_def nth_list_update)

lemma set_context_state_fields [simp]:
  "sources (set_context_state c st s) = sources s"
  "activeSourceRef (set_context_state c st s) = activeSourceRef s"
  "audioContextRef (set_context_state c st s) = audioContextRef s"
  "isPlaying (set_context_state c st s) = isPlaying s"
  "isPaused (set_context_state c st s) = isPaused s"
  "length (contexts (set_context_state c st s)) = length (contexts s)"
  "result (set_context_state c st s) = result s"
  "status (set_context_state c st s) = status s"
  "error (set_context_state c st s) = error s"
  "videoUrl (set_context_state c st s) = videoUrl s"
  "mounted (set_context_state c st s) = mounted s"
  by (simp_all add: set_context_state_def)

lemma source_stop_fields [simp]:
  "contexts (snd (source_stop i s)) = contexts s"
  "activeSourceRef (snd (source_stop i s)) = activeSourceRef s"
  "audioContextRef (snd (source_stop i s)) = audioContextRef s"
  "isPlaying (snd (source_stop i s)) = isPlaying s"
  "isPaused (snd (source_stop i s)) = isPaused s"
  "length (sources (snd (source_stop i s))) = length (sources s)"
  "result (snd (source_stop i s)) = result s"
  "status (snd (source_stop i s)) = status s"
  "error (snd (source_stop i s)) = error s"
  "videoUrl (snd (source_stop i s)) = videoUrl s"
  "mounted (snd (source_stop i s)) = mounted s"
  by (simp_all add: source_stop_def split: PlayState.split)

lemma context_state_simps [simp]:
  "context_state (s\<lparr>activeSourceRef := r\<rparr>) c = context_state s c"
  "context_state (s\<lparr>isPlaying := b\<rparr>) c = context_state s c"
  "context_state (s\<lparr>isPaused := b\<rparr>) c = context_state s c"
  "context_state (s\<lparr>sources := srcs\<rparr>) c = context_state s c"
  "context_state (snd (source_stop i s)) c = context_state s c"
  by (simp_all add: context_state_def)

lemma context_state_lt: "context_state s c = Some st \<Longrightarrow> c < length (contexts s)"
  by (simp add: context_state_def split: if_splits)

lemma stopAudio_ok: "fst (stopAudio s) = None"
  by (simp add: stopAudio_def Let_def)

lemma stopAudio_flags:
  "activeSourceRef (snd (stopAudio s)) = None"
  "\<not> isPlaying (snd (stopAudio s))"
  "\<not> isPaused (snd (stopAudio s))"
  by (simp_all add: stopAudio_def Let_def context_resume_def split: option.split)

lemma stopAudio_audioContextRef [simp]: "audioContextRef (snd (stopAudio s)) = audioContextRef s"
  by (simp add: stopAudio_def Let_def context_resume_def split: option.split)

lemma stopAudio_context_state:
  "context_state (snd (stopAudio s)) c =
     (if audioContextRef s = Some c \<and> context_state s c = Some Suspended then Some Running
      else context_state s c)"
  by (auto simp add: stopAudio_def Let_def context_resume_def split: option.split dest: context_state_lt)

lemma stopAudio_idem: "stopAudio (snd (stopAudio s)) = stopAudio s"
  by (auto simp add: stopAudio_def Let_def context_resume_def split: option.split dest: context_state_lt)

lemma source_state_lt: "source_state s i = Some st \<Longrightarrow> i < length (sources s)"
  by (simp add: source_state_def split: if_splits)

lemma source_stop_state:
  "source_state (snd (source_stop i s)) j =
     (if j = i \<and> source_state s i = Some Playing then Some Stopped else source_state s j)"
  by (auto simp: source_state_def source_stop_def nth_list_update split: PlayState.split)

lemma source_state_simps [simp]:
  "source_state (s\<lparr>activeSourceRef := r\<rparr>) j = source_state s j"
  "source_state (s\<lparr>isPlaying := b\<rparr>) j = source_state s j"
  "source_state (s\<lparr>isPaused := b\<rparr>) j = source_state s j"
  "source_state (s\<lparr>contexts := cs\<rparr>) j = source_state s j"
  "source_state (s\<lparr>audioContextRef := a\<rparr>) j = source_state s j"
  "source_state (set_context_state c st s) j = source_state s j"
  by (simp_all add: source_state_def)

lemma stopAudio_source_state:
  "source_state (snd (stopAudio s)) j =
     (if activeSourceRef s = Some j \<and> source_state s j = Some Playing then Some Stopped
      else source_state s j)"
  by (auto simp add: stopAudio_def Let_def context_resume_def source_stop_state split: option.split)

lemma stopAudio_length_sources [simp]:
  "length (sources (snd (stopAudio s))) = length (sources s)"
  by (simp add: stopAudio_def Let_def context_resume_def split: option.split)

lemma stopAudio_length_contexts [simp]:
  "length (contexts (snd (stopAudio s))) = length (contexts s)"
  by (simp add: stopAudio_def Let_def context_resume_def split: option.split)

lemma stopAudio_other_fields [simp]:
  "result (snd (stopAudio s)) = result s"
  "status (snd (stopAudio s)) = status s"
  "error (snd (stopAudio s)) = error s"
  "videoUrl (snd (stopAudio s)) = videoUrl s"
  "mounted (snd (stopAudio s)) = mounted s"
  by (simp_all add: stopAudio_def Let_def context_resume_def split: option.split)

lemma playing_ids_iff:
  "j \<in> set (playing_ids s) \<longleftrightarrow> source_state s j = Some Playing"
  by (auto simp: playing_ids_def source_state_def)

lemma playing_ids_eq_filter:
  "playing_ids s = filter (\<lambda>j. source_state s j = Some Playing) [0..<length (sources s)]"
  unfolding playing_ids_def by (rule filter_cong) (auto simp: source_state_def)

lemma stopAudio_playing_ids:
  "playing_ids (snd (stopAudio s)) = filter (\<lambda>j. activeSourceRef s \<noteq> Some j) (playing_ids s)"
  unfolding playing_ids_eq_filter filter_filter stopAudio_length_sources
  by (rule filter_cong) (auto simp: stopAudio_source_state)

lemma stopAudio_tracked_silence:
  "set (playing_ids s) \<subseteq> set_option (activeSourceRef s) \<Longrightarrow> playing_ids (snd (stopAudio s)) = []"
  by (auto simp: stopAudio_playing_ids filter_empty_conv)

lemma ensureAudioContext_fields [simp]:
  "sources (ensureAudioContext s) = sources s"
  "activeSourceRef (ensureAudioContext s) = activeSourceRef s"
  "isPlaying (ensureAudioContext s) = isPlaying s"
  "isPaused (ensureAudioContext s) = isPaused s"
  "result (ensureAudioContext s) = result s"
  "status (ensureAudioContext s) = status s"
  "error (ensureAudioContext s) = error s"
  "videoUrl (ensureAudioContext s) = videoUrl s"
  "mounted (ensureAudioContext s) = mounted s"
  by (simp_all add: ensureAudioContext_def split: option.split)

lemma ensureAudioContext_ref:
  "audioContextRef (ensureAudioContext s) =
     Some (case audioContextRef s of None \<Rightarrow> length (contexts s) | Some c \<Rightarrow> c)"
  by (simp add: ensureAudioContext_def split: option.split)

lemma source_state_ensure [simp]: "source_state (ensureAudioContext s) j = source_state s j"
  by (simp add: source_state_def)

lemma playing_ids_cong:
  "sources s' = sources s \<Longrightarrow> playing_ids s' = playing_ids s"
  by (simp add: playing_ids_def)

lemma startNewAudio_prepare_ok: "fst (startNewAudio_prepare s) = None"
  by (simp add: startNewAudio_prepare_def stopAudio_def Let_def context_resume_def
        ensureAudioContext_ref split: option.split)

lemma startNewAudio_prepare_sources:
  "sources (snd (startNewAudio_prepare s)) = sources (snd (stopAudio s))"
  by (simp add: startNewAudio_prepare_def andThen_def stopAudio_ok Let_def context_resume_def
        ensureAudioContext_ref split: option.split)

lemma startNewAudio_prepare_fields:
  "activeSourceRef (snd (startNewAudio_prepare s)) = None"
  "audioContextRef (snd (startNewAudio_prepare s)) =
     Some (case audioContextRef s of None \<Rightarrow> length (contexts s) | Some c \<Rightarrow> c)"
  "result (snd (startNewAudio_prepare s)) = result s"
  "status (snd (startNewAudio_prepare s)) = status s"
  "error (snd (startNewAudio_prepare s)) = error s"
  "videoUrl (snd (startNewAudio_prepare s)) = videoUrl s"
  "mounted (snd (startNewAudio_prepare s)) = mounted s"
  by (simp_all add: startNewAudio_prepare_def andThen_def stopAudio_ok Let_def context_resume_def
        ensureAudioContext_ref stopAudio_flags split: option.split)

lemma waiting_fields [simp]:
  "waiting (set_context_state c st s) = waiting s"
  "waiting (snd (source_stop i s)) = waiting s"
  "waiting (ensureAudioContext s) = waiting s"
  "waiting (snd (stopAudio s)) = waiting s"
  "waiting (snd (startNewAudio_prepare s)) = waiting s"
proof -
  show a: "waiting (set_context_state c st s) = waiting s" for c st s
    by (simp add: set_context_state_def)
  show b: "waiting (snd (source_stop i s)) = waiting s" for i s
    by (simp add: source_stop_def split: PlayState.split)
  show c: "waiting (ensureAudioContext s) = waiting s" for s
    by (simp add: ensureAudioContext_def split: option.split)
  show d: "waiting (snd (stopAudio s)) = waiting s" for s
    by (simp add: stopAudio_def Let_def context_resume_def a b split: option.split)
  show "waiting (snd (startNewAudio_prepare s)) = waiting s"
    by (simp add: startNewAudio_prepare_def andThen_def stopAudio_ok Let_def context_resume_def
        ensureAudioContext_ref a c d split: option.split)
qed

lemma startNewAudio_attach_eq:
  "startNewAudio_attach audioBuffer s =
     (None, s\<lparr>sources := sources s @ [\<lparr>buffer = audioBuffer, playState = Playing\<rparr>],
              activeSourceRef := Some (length (sources s)),
              isPlaying := True, isPaused := False\<rparr>)"
  by (simp add: startNewAudio_attach_def Let_def source_start_def)

lemma mono_decodeAudioData: "decodeAudioData bytes 24000 1 = Inr (monoBuffer bytes)"
  by (simp add: decodeAudioData_def decodePcm_def Let_def map_nth monoBuffer_def)

lemma startNewAudio_valid:
  assumes "decode base64 = Inr bytes"
  shows "startNewAudio base64 s = startNewAudio_attach (monoBuffer bytes) (snd (startNewAudio_prepare s))"
  using assms startNewAudio_prepare_ok [of s]
  by (simp add: startNewAudio_def andThen_def mono_decodeAudioData)

lemma stopAudio_contexts_None:
  "audioContextRef s = None \<Longrightarrow> contexts (snd (stopAudio s)) = contexts s"
  by (simp add: stopAudio_def Let_def split: option.split)

lemma startNewAudio_prepare_contexts_Some:
  "audioContextRef s = Some c \<Longrightarrow>
     contexts (snd (startNewAudio_prepare s)) = contexts (snd (stopAudio s))"
  by (simp add: startNewAudio_prepare_def andThen_def stopAudio_ok Let_def
        ensureAudioContext_def stopAudio_context_state context_resume_def)

lemma startNewAudio_prepare_contexts_None:
  "audioContextRef s = None \<Longrightarrow>
     contexts (snd (startNewAudio_prepare s)) =
       contexts s @ [\<lparr>ctxSampleRate = 24000, ctxState = Running\<rparr>]"
  by (simp add: startNewAudio_prepare_def andThen_def stopAudio_ok Let_def
        ensureAudioContext_def context_resume_def context_state_def set_context_state_def
        stopAudio_contexts_None stopAudio_flags)

lemma context_state_cong: "contexts s' = contexts s \<Longrightarrow> context_state s' c = context_state s c"
  by (simp add: context_state_def)

lemma startNewAudio_prepare_context_state:
  "audioContextRef s = Some c \<Longrightarrow>
     context_state (snd (startNewAudio_prepare s)) c' = context_state (snd (stopAudio s)) c'"
  by (rule context_state_cong) (rule startNewAudio_prepare_contexts_Some)

lemma source_state_append_new [simp]:
  "n = length xs \<Longrightarrow> source_state (s\<lparr>sources := xs @ [node]\<rparr>) n = Some (playState node)"
  by (simp add: source_state_def)

lemma source_state_append_old:
  "j < length xs \<Longrightarrow> source_state (s\<lparr>sources := xs @ [node]\<rparr>) j = Some (playState (xs ! j))"
  by (simp add: source_state_def nth_append)

lemma startNewAudio_play:
  assumes "decode base64 = Inr bytes"
  shows "fst (startNewAudio base64 s) = None"
    and "activeSourceRef (snd (startNewAudio base64 s)) = Some (length (sources s))"
    and "isPlaying (snd (startNewAudio base64 s))"
    and "\<not> isPaused (snd (startNewAudio base64 s))"
    and "length (sources (snd (startNewAudio base64 s))) = Suc (length (sources s))"
    and "source_state (snd (startNewAudio base64 s)) j =
           (if j = length (sources s) then Some Playing
            else if activeSourceRef s = Some j \<and> source_state s j = Some Playing then Some Stopped
            else source_state s j)"
proof -
  have eq: "startNewAudio base64 s =
      startNewAudio_attach (monoBuffer bytes) (snd (startNewAudio_prepare s))"
    by (rule startNewAudio_valid [OF assms])
  show "fst (startNewAudio base64 s) = None"
    by (simp add: eq startNewAudio_attach_eq)
  show "activeSourceRef (snd (startNewAudio base64 s)) = Some (length (sources s))"
    by (simp add: eq startNewAudio_attach_eq startNewAudio_prepare_sources)
  show "isPlaying (snd (startNewAudio base64 s))"
    by (simp add: eq startNewAudio_attach_eq)
  show "\<not> isPaused (snd (startNewAudio base64 s))"
    by (simp add: eq startNewAudio_attach_eq)
  show "length (sources (snd (startNewAudio base64 s))) = Suc (length (sources s))"
    by (simp add: eq startNewAudio_attach_eq startNewAudio_prepare_sources)
  have old: "source_state (snd (startNewAudio base64 s)) j = source_state (snd (stopAudio s)) j"
    if "j \<noteq> length (sources s)"
    using that
    by (auto simp add: eq startNewAudio_attach_eq startNewAudio_prepare_sources source_state_def nth_append)
  show "source_state (snd (startNewAudio base64 s)) j =
           (if j = length (sources s) then Some Playing
            else if activeSourceRef s = Some j \<and> source_state s j = Some Playing then Some Stopped
            else source_state s j)"
  proof (cases "j = length (sources s)")
    case True
    then show ?thesis
      by (simp add: eq startNewAudio_attach_eq startNewAudio_prepare_sources)
  next
    case False
    then show ?thesis
      by (simp add: old stopAudio_source_state)
  qed
qed

lemma tracked_source_stop_ok:
  "source_state s i \<noteq> Some Unstarted \<Longrightarrow> fst (source_stop i s) = None"
  by (auto simp add: source_stop_def source_state_def split: PlayState.split if_splits)

lemma playAudio_valid:
  assumes "decode base64 = Inr bytes"
    and "\<forall>i. activeSourceRef s = Some i \<longrightarrow> source_state s i \<noteq> Some Unstarted"
  shows "playAudio (Some base64) s =
     (let s1 = (case activeSourceRef s of None \<Rightarrow> s | Some i \<Rightarrow> snd (source_stop i s));
          s2 = ensureAudioContext s1
      in (None, s2\<lparr>sources := sources s1 @ [\<lparr>buffer = monoBuffer bytes, playState = Playing\<rparr>],
                  activeSourceRef := Some (length (sources s)),
                  isPlaying := True\<rparr>))"
proof (cases "activeSourceRef s")
  case None
  then show ?thesis
    using assms(1)
    by (simp add: playAudio_def decode_value_def mono_decodeAudioData Let_def source_start_def)
next
  case (Some i)
  then have ok: "fst (source_stop i s) = None"
    using assms(2) by (simp add: tracked_source_stop_ok)
  then have pair: "source_stop i s = (None, snd (source_stop i s))"
    by (metis prod.collapse)
  show ?thesis
    using assms(1) Some
    apply (simp add: playAudio_def)
    apply (subst pair)
    apply (simp add: decode_value_def mono_decodeAudioData Let_def source_start_def)
    done
qed

lemma playAudio_play:
  assumes "decode base64 = Inr bytes"
    and "\<forall>i. activeSourceRef s = Some i \<longrightarrow> source_state s i \<noteq> Some Unstarted"
  shows "fst (playAudio (Some base64) s) = None"
    and "activeSourceRef (snd (playAudio (Some base64) s)) = Some (length (sources s))"
    and "isPlaying (snd (playAudio (Some base64) s))"
    and "length (sources (snd (playAudio (Some base64) s))) = Suc (length (sources s))"
    and "source_state (snd (playAudio (Some base64) s)) j =
           (if j = length (sources s) then Some Playing
            else if activeSourceRef s = Some j \<and> source_state s j = Some Playing then Some Stopped
            else source_state s j)"
proof -
  note eq = playAudio_valid [OF assms]
  show "fst (playAudio (Some base64) s) = None"
    by (simp add: eq Let_def)
  show "activeSourceRef (snd (playAudio (Some base64) s)) = Some (length (sources s))"
    by (simp add: eq Let_def)
  show "isPlaying (snd (playAudio (Some base64) s))"
    by (simp add: eq Let_def)
  show "length (sources (snd (playAudio (Some base64) s))) = Suc (length (sources s))"
    by (simp add: eq Let_def split: option.split)
  show "source_state (snd (playAudio (Some base64) s)) j =
           (if j = length (sources s) then Some Playing
            else if activeSourceRef s = Some j \<and> source_state s j = Some Playing then Some Stopped
            else source_state s j)"
  proof (cases "j = length (sources s)")
    case True
    then show ?thesis
      by (simp add: eq Let_def split: option.split)
  next
    case False
    have "source_state (snd (playAudio (Some base64) s)) j =
            source_state (case activeSourceRef s of None \<Rightarrow> s | Some i \<Rightarrow> snd (source_stop i s)) j"
      using False
      by (auto simp add: eq Let_def source_state_def nth_append split: option.split)
    then show ?thesis
      using False by (auto simp add: source_stop_state split: option.split)
  qed
qed

lemma playing_after_two:
  assumes st: "\<And>j. source_state sB j =
        (if j = Suc n then Some Playing
         else if j = n then Some Stopped
         else if activeSourceRef s = Some j \<and> source_state s j = Some Playing then Some Stopped
         else source_state s j)"
    and len: "length (sources sB) = Suc (Suc n)" and n: "n = length (sources s)"
    and tracked: "set (playing_ids s) \<subseteq> set_option (activeSourceRef s)"
  shows "playing_ids sB = [Suc n]"
proof -
  have none: "source_state s j \<noteq> Some Playing \<or> activeSourceRef s = Some j" for j
    using tracked by (auto simp: playing_ids_iff subset_iff)
  have iff: "source_state sB j = Some Playing \<longleftrightarrow> j = Suc n" for j
    using none [of j] by (auto simp: st)
  have "playing_ids sB = filter (\<lambda>j. j = Suc n) [0..<Suc (Suc n)]"
    unfolding playing_ids_eq_filter len by (rule filter_cong) (auto simp: iff)
  also have "\<dots> = [Suc n]"
    by (simp add: filter_empty_conv)
  finally show ?thesis .
qed


lemma onended_source_state [simp]:
  "source_state (startNewAudio_onended t) j = source_state t j"
  "source_state (playAudio_onended t) j = source_state t j"
  by (simp_all add: startNewAudio_onended_def playAudio_onended_def source_state_def)





lemma context_singleton_simps [simp]:
  "context_singleton (s\<lparr>waiting := w\<rparr>) = context_singleton s"
  "context_singleton (s\<lparr>isPlaying := b\<rparr>) = context_singleton s"
  "context_singleton (s\<lparr>isPaused := b\<rparr>) = context_singleton s"
  "context_singleton (s\<lparr>activeSourceRef := r\<rparr>) = context_singleton s"
  "context_singleton (s\<lparr>sources := xs\<rparr>) = context_singleton s"
  "context_singleton (s\<lparr>result := res\<rparr>) = context_singleton s"
  "context_singleton (s\<lparr>status := st'\<rparr>) = context_singleton s"
  "context_singleton (s\<lparr>error := er\<rparr>) = context_singleton s"
  "context_singleton (s\<lparr>videoUrl := v\<rparr>) = context_singleton s"
  "context_singleton (s\<lparr>mounted := m\<rparr>) = context_singleton s"
  "context_singleton (set_context_state c st s) = context_singleton s"
  by (simp_all add: context_singleton_def split: option.split)

lemma context_state_more_simps [simp]:
  "context_state (s\<lparr>waiting := w\<rparr>) c = context_state s c"
  "context_state (s\<lparr>result := res\<rparr>) c = context_state s c"
  "context_state (s\<lparr>status := st'\<rparr>) c = context_state s c"
  "context_state (s\<lparr>error := er\<rparr>) c = context_state s c"
  "context_state (s\<lparr>videoUrl := v\<rparr>) c = context_state s c"
  "context_state (s\<lparr>mounted := m\<rparr>) c = context_state s c"
  by (simp_all add: context_state_def)

lemma startNewAudio_contexts:
  "contexts (snd (startNewAudio base64 s)) = contexts (snd (startNewAudio_prepare s))"
  "audioContextRef (snd (startNewAudio base64 s)) = audioContextRef (snd (startNewAudio_prepare s))"
  using startNewAudio_prepare_ok [of s]
  by (simp_all add: startNewAudio_def andThen_def startNewAudio_attach_eq split: sum.split)

lemma startNewAudio_mounted [simp]: "mounted (snd (startNewAudio base64 s)) = mounted s"
  using startNewAudio_prepare_ok [of s]
  by (simp add: startNewAudio_def andThen_def startNewAudio_attach_eq startNewAudio_prepare_fields
      split: sum.split)

lemma startNewAudio_prepare_length_contexts:
  "length (contexts (snd (startNewAudio_prepare s))) =
     (case audioContextRef s of None \<Rightarrow> Suc (length (contexts s)) | Some c \<Rightarrow> length (contexts s))"
  by (simp add: startNewAudio_prepare_contexts_None startNewAudio_prepare_contexts_Some
      split: option.split)

lemma startNewAudio_prepare_closed:
  assumes "context_state (snd (startNewAudio_prepare s)) c = Some Closed"
  shows "context_state s c = Some Closed"
proof (cases "audioContextRef s")
  case None
  then show ?thesis
    using assms
    by (auto simp add: context_state_def startNewAudio_prepare_contexts_None nth_append
        split: if_splits)
next
  case (Some c')
  then show ?thesis
    using assms
    by (simp add: startNewAudio_prepare_context_state stopAudio_context_state split: if_splits)
qed

lemma startNewAudio_singleton:
  "context_singleton s \<Longrightarrow> context_singleton (snd (startNewAudio base64 s))"
  by (simp add: context_singleton_def startNewAudio_contexts startNewAudio_prepare_fields
      startNewAudio_prepare_length_contexts split: option.splits)

lemma startNewAudio_closed:
  "context_state (snd (startNewAudio base64 s)) c = Some Closed \<Longrightarrow> context_state s c = Some Closed"
proof -
  have "context_state (snd (startNewAudio base64 s)) c = context_state (snd (startNewAudio_prepare s)) c"
    by (rule context_state_cong) (rule startNewAudio_contexts)
  then show "context_state (snd (startNewAudio base64 s)) c = Some Closed \<Longrightarrow> context_state s c = Some Closed"
    by (simp add: startNewAudio_prepare_closed)
qed

lemma startNewAudio_keeps_context:
  "audioContextRef s = Some c \<Longrightarrow> audioContextRef (snd (startNewAudio base64 s)) = Some c"
  by (simp add: startNewAudio_contexts startNewAudio_prepare_fields)

lemma startNewAudio_creates_context:
  "audioContextRef s = None \<Longrightarrow>
     audioContextRef (snd (startNewAudio base64 s)) = Some (length (contexts s))"
  by (simp add: startNewAudio_contexts startNewAudio_prepare_fields)

lemma startNewAudio_decode_eq:
  "startNewAudio_decode base64 s =
     (case decode base64 of
        Inl e \<Rightarrow> (Some e, s)
      | Inr bytes \<Rightarrow> (None, s\<lparr>waiting := waiting s @ [AwaitDecode (monoBuffer bytes)]\<rparr>))"
  by (simp add: startNewAudio_decode_def mono_decodeAudioData split: sum.split)

lemma startNewAudio_decode_fields [simp]:
  "contexts (snd (startNewAudio_decode base64 s)) = contexts s"
  "audioContextRef (snd (startNewAudio_decode base64 s)) = audioContextRef s"
  "sources (snd (startNewAudio_decode base64 s)) = sources s"
  "activeSourceRef (snd (startNewAudio_decode base64 s)) = activeSourceRef s"
  "isPlaying (snd (startNewAudio_decode base64 s)) = isPlaying s"
  "isPaused (snd (startNewAudio_decode base64 s)) = isPaused s"
  "mounted (snd (startNewAudio_decode base64 s)) = mounted s"
  "result (snd (startNewAudio_decode base64 s)) = result s"
  "status (snd (startNewAudio_decode base64 s)) = status s"
  "error (snd (startNewAudio_decode base64 s)) = error s"
  "videoUrl (snd (startNewAudio_decode base64 s)) = videoUrl s"
  by (simp_all add: startNewAudio_decode_eq split: sum.split)

lemma startNewAudio_call_fields:
  "contexts (snd (startNewAudio_call base64 s)) = contexts (snd (startNewAudio_prepare s))"
  "audioContextRef (snd (startNewAudio_call base64 s)) = audioContextRef (snd (startNewAudio_prepare s))"
  "sources (snd (startNewAudio_call base64 s)) = sources (snd (startNewAudio_prepare s))"
  "activeSourceRef (snd (startNewAudio_call base64 s)) = None"
  "isPlaying (snd (startNewAudio_call base64 s)) = False"
  "isPaused (snd (startNewAudio_call base64 s)) = False"
  "mounted (snd (startNewAudio_call base64 s)) = mounted s"
  "result (snd (startNewAudio_call base64 s)) = result s"
  "status (snd (startNewAudio_call base64 s)) = status s"
  "error (snd (startNewAudio_call base64 s)) = error s"
  "videoUrl (snd (startNewAudio_call base64 s)) = videoUrl s"
  by (simp_all add: startNewAudio_call_def startNewAudio_prepare_def andThen_def stopAudio_ok
      Let_def context_resume_def ensureAudioContext_ref stopAudio_flags split: option.split)

lemma startNewAudio_call_singleton:
  "context_singleton s \<Longrightarrow> context_singleton (snd (startNewAudio_call base64 s))"
  by (simp add: context_singleton_def startNewAudio_call_fields startNewAudio_prepare_fields
      startNewAudio_prepare_length_contexts split: option.splits)

lemma startNewAudio_call_closed:
  assumes "context_state (snd (startNewAudio_call base64 s)) c = Some Closed"
  shows "context_state s c = Some Closed"
proof -
  have "context_state (snd (startNewAudio_call base64 s)) c
      = context_state (snd (startNewAudio_prepare s)) c"
    by (rule context_state_cong) (rule startNewAudio_call_fields)
  with assms show ?thesis
    by (simp add: startNewAudio_prepare_closed)
qed

lemma startNewAudio_call_keeps_context:
  "audioContextRef s = Some c \<Longrightarrow> audioContextRef (snd (startNewAudio_call base64 s)) = Some c"
  by (simp add: startNewAudio_call_fields startNewAudio_prepare_fields)

lemma startNewAudio_resumed_fields [simp]:
  "contexts (snd (startNewAudio_resumed k s)) = contexts s"
  "audioContextRef (snd (startNewAudio_resumed k s)) = audioContextRef s"
  "mounted (snd (startNewAudio_resumed k s)) = mounted s"
  by (simp_all add: startNewAudio_resumed_def Let_def startNewAudio_attach_eq split: Waiting.split)

lemma stopAudio_singleton: "context_singleton (snd (stopAudio s)) = context_singleton s"
  by (simp add: context_singleton_def split: option.split)

lemma stopAudio_closed:
  "context_state (snd (stopAudio s)) c = Some Closed \<Longrightarrow> context_state s c = Some Closed"
  by (simp add: stopAudio_context_state split: if_splits)

lemma togglePlayback_contexts:
  "audioContextRef s = Some c \<Longrightarrow> audioContextRef (snd (togglePlayback s)) = Some c"
  "audioContextRef s = None \<Longrightarrow> togglePlayback s = (None, s)"
  "context_singleton s \<Longrightarrow> context_singleton (snd (togglePlayback s))"
  "context_state (snd (togglePlayback s)) c' = Some Closed \<Longrightarrow> context_state s c' = Some Closed"
  "mounted (snd (togglePlayback s)) = mounted s"
proof -
  show "audioContextRef s = Some c \<Longrightarrow> audioContextRef (snd (togglePlayback s)) = Some c"
    by (simp add: togglePlayback_def andThen_def context_resume_def context_suspend_def
        startNewAudio_call_keeps_context split: option.split)
  show "audioContextRef s = None \<Longrightarrow> togglePlayback s = (None, s)"
    by (simp add: togglePlayback_def)
  show "context_singleton s \<Longrightarrow> context_singleton (snd (togglePlayback s))"
    by (simp add: togglePlayback_def andThen_def context_resume_def context_suspend_def
        startNewAudio_call_singleton split: option.split)
  show "context_state (snd (togglePlayback s)) c' = Some Closed \<Longrightarrow> context_state s c' = Some Closed"
    by (auto simp add: togglePlayback_def andThen_def context_resume_def context_suspend_def
        split: option.splits if_splits dest: startNewAudio_call_closed)
  show "mounted (snd (togglePlayback s)) = mounted s"
    by (simp add: togglePlayback_def andThen_def context_resume_def context_suspend_def
        startNewAudio_call_fields split: option.split)
qed

lemma ensureAudioContext_singleton:
  "context_singleton s \<Longrightarrow> context_singleton (ensureAudioContext s)"
  by (simp add: context_singleton_def ensureAudioContext_def split: option.splits)

lemma ensureAudioContext_closed:
  "context_state (ensureAudioContext s) c = Some Closed \<Longrightarrow> context_state s c = Some Closed"
  by (auto simp add: context_state_def ensureAudioContext_def nth_append split: option.splits if_splits)

lemma ensureAudioContext_keeps:
  "audioContextRef s = Some c \<Longrightarrow> audioContextRef (ensureAudioContext s) = Some c"
  by (simp add: ensureAudioContext_def)

lemma source_stop_singleton [simp]:
  "context_singleton (snd (source_stop i s)) = context_singleton s"
  by (simp add: context_singleton_def split: option.split)

lemma ensureAudioContext_source_stop:
  "contexts (ensureAudioContext (snd (source_stop i s))) = contexts (ensureAudioContext s)"
  "audioContextRef (ensureAudioContext (snd (source_stop i s))) = audioContextRef (ensureAudioContext s)"
  by (simp_all add: ensureAudioContext_def split: option.split)

lemma ensureAudioContext_upd [simp]:
  "contexts (ensureAudioContext s\<lparr>sources := xs\<rparr>) = contexts (ensureAudioContext s)"
  by (simp add: ensureAudioContext_def split: option.split)

lemma playAudio_ctx:
  "(contexts (snd (playAudio v s)) = contexts s \<and>
      audioContextRef (snd (playAudio v s)) = audioContextRef s) \<or>
   (contexts (snd (playAudio v s)) = contexts (ensureAudioContext s) \<and>
      audioContextRef (snd (playAudio v s)) = audioContextRef (ensureAudioContext s))"
proof (cases "activeSourceRef s")
  case None
  then show ?thesis
    by (simp add: playAudio_def Let_def source_start_def split: sum.split)
next
  case (Some i)
  show ?thesis
  proof (cases "fst (source_stop i s)")
    case None
    then have pair: "source_stop i s = (None, snd (source_stop i s))"
      by (metis prod.collapse)
    have "playAudio v s =
       (let s2 = ensureAudioContext (snd (source_stop i s))
       in case decode_value v of
            Inl e \<Rightarrow> (Some e, s2)
          | Inr bytes \<Rightarrow>
              (case decodeAudioData bytes 24000 1 of
                 Inl e \<Rightarrow> (Some e, s2)
               | Inr audioBuffer \<Rightarrow>
                   let i = length (sources s2);
                       s3 = s2\<lparr>sources := sources s2
                                  @ [\<lparr>buffer = audioBuffer, playState = Unstarted\<rparr>]\<rparr>;
                       s4 = s3\<lparr>activeSourceRef := Some i\<rparr>
                   in andThen (source_start i s4) (\<lambda>s5. (None, s5\<lparr>isPlaying := True\<rparr>))))"
      using \<open>activeSourceRef s = Some i\<close>
      by (simp add: playAudio_def Let_def) (subst pair, simp add: Let_def)
    then show ?thesis
      by (simp add: Let_def source_start_def ensureAudioContext_source_stop nth_append split: sum.split)
  next
    case (Some e)
    then have "snd (source_stop i s) = s"
      by (auto simp add: source_stop_def split: if_splits PlayState.splits)
    then show ?thesis
      using Some \<open>activeSourceRef s = Some i\<close>
      by (simp add: playAudio_def andThen_def)
  qed
qed

lemma playAudio_contexts:
  "context_singleton s \<Longrightarrow> context_singleton (snd (playAudio v s))"
  "context_state (snd (playAudio v s)) c = Some Closed \<Longrightarrow> context_state s c = Some Closed"
  "audioContextRef s = Some c \<Longrightarrow> audioContextRef (snd (playAudio v s)) = Some c"
proof -
  show "context_singleton s \<Longrightarrow> context_singleton (snd (playAudio v s))"
    using playAudio_ctx [of v s] ensureAudioContext_singleton [of s]
    by (auto simp add: context_singleton_def split: option.splits)
  show "context_state (snd (playAudio v s)) c = Some Closed \<Longrightarrow> context_state s c = Some Closed"
    using playAudio_ctx [of v s] ensureAudioContext_closed [of s c]
      context_state_cong [of "snd (playAudio v s)" s c]
      context_state_cong [of "snd (playAudio v s)" "ensureAudioContext s" c]
    by auto
  show "audioContextRef s = Some c \<Longrightarrow> audioContextRef (snd (playAudio v s)) = Some c"
    using playAudio_ctx [of v s]
    by (auto simp add: ensureAudioContext_keeps)
qed

lemma playAudio_call_ctx:
  "(contexts (snd (playAudio_call v s)) = contexts s \<and>
      audioContextRef (snd (playAudio_call v s)) = audioContextRef s) \<or>
   (contexts (snd (playAudio_call v s)) = contexts (ensureAudioContext s) \<and>
      audioContextRef (snd (playAudio_call v s)) = audioContextRef (ensureAudioContext s))"
proof (cases "activeSourceRef s")
  case None
  then show ?thesis
    by (simp add: playAudio_call_def Let_def split: sum.split)
next
  case (Some i)
  show ?thesis
  proof (cases "fst (source_stop i s)")
    case None
    then have pair: "source_stop i s = (None, snd (source_stop i s))"
      by (metis prod.collapse)
    have "playAudio_call v s =
       (let s2 = ensureAudioContext (snd (source_stop i s))
       in case decode_value v of
            Inl e \<Rightarrow> (Some e, s2)
          | Inr bytes \<Rightarrow>
              (case decodeAudioData bytes 24000 1 of
                 Inl e \<Rightarrow> (Some e, s2)
               | Inr audioBuffer \<Rightarrow>
                   (None, s2\<lparr>waiting := waiting s2 @ [AwaitDecode audioBuffer]\<rparr>)))"
      using \<open>activeSourceRef s = Some i\<close>
      by (simp add: playAudio_call_def Let_def) (subst pair, simp add: Let_def)
    then show ?thesis
      by (simp add: Let_def ensureAudioContext_source_stop split: sum.split)
  next
    case (Some e)
    then have "snd (source_stop i s) = s"
      by (auto simp add: source_stop_def split: if_splits PlayState.splits)
    then show ?thesis
      using Some \<open>activeSourceRef s = Some i\<close>
      by (simp add: playAudio_call_def andThen_def)
  qed
qed

lemma playAudio_call_contexts:
  "context_singleton s \<Longrightarrow> context_singleton (snd (playAudio_call v s))"
  "context_state (snd (playAudio_call v s)) c = Some Closed \<Longrightarrow> context_state s c = Some Closed"
  "audioContextRef s = Some c \<Longrightarrow> audioContextRef (snd (playAudio_call v s)) = Some c"
proof -
  show "context_singleton s \<Longrightarrow> context_singleton (snd (playAudio_call v s))"
    using playAudio_call_ctx [of v s] ensureAudioContext_singleton [of s]
    by (auto simp add: context_singleton_def split: option.splits)
  show "context_state (snd (playAudio_call v s)) c = Some Closed \<Longrightarrow> context_state s c = Some Closed"
    using playAudio_call_ctx [of v s] ensureAudioContext_closed [of s c]
      context_state_cong [of "snd (playAudio_call v s)" s c]
      context_state_cong [of "snd (playAudio_call v s)" "ensureAudioContext s" c]
    by auto
  show "audioContextRef s = Some c \<Longrightarrow> audioContextRef (snd (playAudio_call v s)) = Some c"
    using playAudio_call_ctx [of v s]
    by (auto simp add: ensureAudioContext_keeps)
qed

lemma playAudio_attach_eq:
  "playAudio_attach audioBuffer s =
     (None, s\<lparr>sources := sources s @ [\<lparr>buffer = audioBuffer, playState = Playing\<rparr>],
              activeSourceRef := Some (length (sources s)),
              isPlaying := True\<rparr>)"
  by (simp add: playAudio_attach_def Let_def source_start_def)

lemma playAudio_resumed_fields [simp]:
  "contexts (snd (playAudio_resumed k s)) = contexts s"
  "audioContextRef (snd (playAudio_resumed k s)) = audioContextRef s"
  "mounted (snd (playAudio_resumed k s)) = mounted s"
  by (simp_all add: playAudio_resumed_def playAudio_attach_eq split: Waiting.split)

lemma stopAudio_keeps_context:
  "audioContextRef s = Some c \<Longrightarrow> audioContextRef (snd (stopAudio s)) = Some c"
  by simp

lemma processVideo_contexts:
  "context_singleton s \<Longrightarrow> context_singleton (processVideo analysis speech s)"
  "context_state (processVideo analysis speech s) c = Some Closed \<Longrightarrow> context_state s c = Some Closed"
  "audioContextRef s = Some c \<Longrightarrow> audioContextRef (processVideo analysis speech s) = Some c"
  "mounted (processVideo analysis speech s) = mounted s"
proof -
  show "context_singleton s \<Longrightarrow> context_singleton (processVideo analysis speech s)"
    by (auto simp add: processVideo_def Let_def split: sum.split option.split prod.split
        intro!: startNewAudio_call_singleton)
  show "context_state (processVideo analysis speech s) c = Some Closed \<Longrightarrow> context_state s c = Some Closed"
    by (auto simp add: processVideo_def Let_def split: sum.splits option.splits prod.splits if_splits
        dest!: startNewAudio_call_closed)
  show "audioContextRef s = Some c \<Longrightarrow> audioContextRef (processVideo analysis speech s) = Some c"
    by (auto simp add: processVideo_def Let_def split: sum.split option.split prod.split
        intro!: startNewAudio_call_keeps_context)
  show "mounted (processVideo analysis speech s) = mounted s"
    by (auto simp add: processVideo_def Let_def startNewAudio_call_fields
        split: sum.split option.split prod.split)
qed

lemma ended_event_contexts:
  assumes "\<And>t. contexts (h t) = contexts t" and "\<And>t. audioContextRef (h t) = audioContextRef t"
  shows "contexts (ended_event h i s) = contexts s"
    and "audioContextRef (ended_event h i s) = audioContextRef s"
  by (simp_all add: ended_event_def assms)

lemma onended_contexts [simp]:
  "contexts (startNewAudio_onended t) = contexts t"
  "audioContextRef (startNewAudio_onended t) = audioContextRef t"
  "mounted (startNewAudio_onended t) = mounted t"
  "contexts (playAudio_onended t) = contexts t"
  "audioContextRef (playAudio_onended t) = audioContextRef t"
  by (simp_all add: startNewAudio_onended_def playAudio_onended_def)

lemma ended_event_web_contexts [simp]:
  "contexts (ended_event startNewAudio_onended i s) = contexts s"
  "audioContextRef (ended_event startNewAudio_onended i s) = audioContextRef s"
  "mounted (ended_event startNewAudio_onended i s) = mounted s"
  "contexts (ended_event playAudio_onended i s) = contexts s"
  "audioContextRef (ended_event playAudio_onended i s) = audioContextRef s"
  by (simp_all add: ended_event_def)

lemma step_singleton: "context_singleton s \<Longrightarrow> context_singleton (step e s)"
proof (cases e)
  case (SourceEnded i)
  then show "context_singleton s \<Longrightarrow> context_singleton (step e s)"
    by (auto simp add: context_singleton_def split: option.splits)
next
  case (PlayResumed k)
  then show "context_singleton s \<Longrightarrow> context_singleton (step e s)"
    by (auto simp add: context_singleton_def split: option.splits)
next
  case Unmount
  then show "context_singleton s \<Longrightarrow> context_singleton (step e s)"
    by (simp add: unmount_def split: option.split)
qed (simp_all add: processVideo_contexts(1) togglePlayback_contexts(3) stopAudio_singleton
    clearResults_def resetAll_def handleFileUpload_def)

lemma step_keeps_context:
  "audioContextRef s = Some c \<Longrightarrow> audioContextRef (step e s) = Some c"
  by (cases e)
    (simp_all add: processVideo_contexts(3) togglePlayback_contexts(1)
      clearResults_def resetAll_def handleFileUpload_def unmount_def split: option.split)

lemma step_closed:
  assumes "e \<noteq> Unmount" and "context_state (step e s) c = Some Closed"
  shows "context_state s c = Some Closed"
proof (cases e)
  case (FileUpload url)
  with assms(2) show ?thesis
    by (simp add: handleFileUpload_def resetAll_def stopAudio_closed split: if_splits)
next
  case (ProcessVideo analysis speech)
  with assms(2) show ?thesis
    by (simp add: processVideo_contexts(2) split: if_splits)
next
  case TogglePlayback
  with assms(2) show ?thesis
    by (simp add: togglePlayback_contexts(4) split: if_splits)
next
  case StopAudio
  with assms(2) show ?thesis
    by (simp add: stopAudio_closed split: if_splits)
next
  case DownloadAudio
  with assms(2) show ?thesis by simp
next
  case ClearResults
  with assms(2) show ?thesis
    by (simp add: clearResults_def stopAudio_closed split: if_splits)
next
  case ResetAll
  with assms(2) show ?thesis
    by (simp add: resetAll_def stopAudio_closed split: if_splits)
next
  case (SourceEnded i)
  have "context_state (ended_event startNewAudio_onended i s) c = context_state s c"
    by (rule context_state_cong) simp
  with SourceEnded assms(2) show ?thesis
    by (simp split: if_splits)
next
  case (PlayResumed k)
  have "context_state (snd (startNewAudio_resumed k s)) c = context_state s c"
    by (rule context_state_cong) simp
  with PlayResumed assms(2) show ?thesis
    by simp
next
  case Unmount
  with assms(1) show ?thesis by simp
qed

lemma run_snoc: "run (es @ [e]) s = step e (run es s)"
  by (simp add: run_def)

lemma run_append: "run (es @ es') s = run es' (run es s)"
  by (simp add: run_def)

lemma run_singleton: "context_singleton s \<Longrightarrow> context_singleton (run es s)"
  by (induction es rule: rev_induct) (simp_all add: run_snoc step_singleton, simp add: run_def)

lemma run_keeps_context:
  "audioContextRef s = Some c \<Longrightarrow> audioContextRef (run es s) = Some c"
  by (induction es rule: rev_induct) (simp_all add: run_snoc step_keeps_context, simp add: run_def)

lemma run_closed:
  "Unmount \<notin> set es \<Longrightarrow> context_state (run es s) c = Some Closed \<Longrightarrow> context_state s c = Some Closed"
proof (induction es rule: rev_induct)
  case Nil
  then show ?case by (simp add: run_def)
next
  case (snoc e es)
  from snoc.prems have e: "e \<noteq> Unmount" and es: "Unmount \<notin> set es"
    by auto
  from snoc.prems have "context_state (step e (run es s)) c = Some Closed"
    by (simp add: run_snoc)
  then have "context_state (run es s) c = Some Closed"
    by (rule step_closed [OF e])
  then show ?case
    by (rule snoc.IH [OF es])
qed

lemma desktop_processVideo_contexts:
  "context_singleton s \<Longrightarrow> context_singleton (desktop_processVideo analysis speech s)"
  "context_state (desktop_processVideo analysis speech s) c = Some Closed \<Longrightarrow> context_state s c = Some Closed"
  "audioContextRef s = Some c \<Longrightarrow> audioContextRef (desktop_processVideo analysis speech s) = Some c"
proof -
  show "context_singleton s \<Longrightarrow> context_singleton (desktop_processVideo analysis speech s)"
    by (auto simp add: desktop_processVideo_def Let_def split: sum.split option.split prod.split
        intro!: playAudio_call_contexts(1))
  show "context_state (desktop_processVideo analysis speech s) c = Some Closed \<Longrightarrow> context_state s c = Some Closed"
    by (auto simp add: desktop_processVideo_def Let_def split: sum.splits option.splits prod.splits if_splits
        dest!: playAudio_call_contexts(2))
  show "audioContextRef s = Some c \<Longrightarrow> audioContextRef (desktop_processVideo analysis speech s) = Some c"
    by (auto simp add: desktop_processVideo_def Let_def split: sum.split option.split prod.split
        intro!: playAudio_call_contexts(3))
qed

lemma desktop_step_singleton: "context_singleton s \<Longrightarrow> context_singleton (desktop_step e s)"
proof (cases e)
  case (DSourceEnded i)
  then show "context_singleton s \<Longrightarrow> context_singleton (desktop_step e s)"
    by (auto simp add: context_singleton_def split: option.splits)
next
  case (DPlayResumed k)
  then show "context_singleton s \<Longrightarrow> context_singleton (desktop_step e s)"
    by (auto simp add: context_singleton_def split: option.splits)
qed (simp_all add: desktop_processVideo_contexts(1) playAudio_call_contexts(1) reproducir_click_def
    desktop_handleFileUpload_def split: option.split)

lemma desktop_step_keeps_context:
  "audioContextRef s = Some c \<Longrightarrow> audioContextRef (desktop_step e s) = Some c"
  by (cases e)
    (simp_all add: desktop_processVideo_contexts(3) playAudio_call_contexts(3) reproducir_click_def
      desktop_handleFileUpload_def split: option.split)

lemma desktop_step_closed:
  assumes "context_state (desktop_step e s) c = Some Closed"
  shows "context_state s c = Some Closed"
proof (cases e)
  case (DFileUpload url)
  with assms show ?thesis
    by (simp add: desktop_handleFileUpload_def split: if_splits)
next
  case DCloseVideo
  with assms show ?thesis
    by (simp split: if_splits)
next
  case (DProcessVideo analysis speech)
  with assms show ?thesis
    by (simp add: desktop_processVideo_contexts(2) split: if_splits)
next
  case Reproducir
  with assms show ?thesis
    by (simp add: reproducir_click_def playAudio_call_contexts(2) split: if_splits option.splits)
next
  case Descargar
  with assms show ?thesis by simp
next
  case (DSourceEnded i)
  have "context_state (ended_event playAudio_onended i s) c = context_state s c"
    by (rule context_state_cong) simp
  with DSourceEnded assms show ?thesis
    by simp
next
  case (DPlayResumed k)
  have "context_state (snd (playAudio_resumed k s)) c = context_state s c"
    by (rule context_state_cong) simp
  with DPlayResumed assms show ?thesis
    by simp
next
  case ContextStarted
  with assms show ?thesis
    by (simp split: option.splits if_splits)
qed

lemma desktop_run_snoc: "desktop_run (es @ [e]) s = desktop_step e (desktop_run es s)"
  by (simp add: desktop_run_def)

lemma desktop_run_append: "desktop_run (es @ es') s = desktop_run es' (desktop_run es s)"
  by (simp add: desktop_run_def)

lemma desktop_run_singleton: "context_singleton s \<Longrightarrow> context_singleton (desktop_run es s)"
  by (induction es rule: rev_induct)
    (simp_all add: desktop_run_snoc desktop_step_singleton, simp add: desktop_run_def)

lemma desktop_run_keeps_context:
  "audioContextRef s = Some c \<Longrightarrow> audioContextRef (desktop_run es s) = Some c"
  by (induction es rule: rev_induct)
    (simp_all add: desktop_run_snoc desktop_step_keeps_context, simp add: desktop_run_def)

lemma desktop_run_closed:
  "context_state (desktop_run es s) c = Some Closed \<Longrightarrow> context_state s c = Some Closed"
proof (induction es rule: rev_induct)
  case Nil
  then show ?case by (simp add: desktop_run_def)
next
  case (snoc e es)
  from snoc.prems have "context_state (desktop_step e (desktop_run es s)) c = Some Closed"
    by (simp add: desktop_run_snoc)
  then have "context_state (desktop_run es s) c = Some Closed"
    by (rule desktop_step_closed)
  then show ?case
    by (rule snoc.IH)
qed

lemma initial_singleton: "context_singleton initialState"
  by (simp add: context_singleton_def initialState_def)

lemma context_singleton_length_le: "context_singleton s \<Longrightarrow> length (contexts s) \<le> 1"
  by (simp add: context_singleton_def split: option.splits)

lemma context_singleton_Some:
  "context_singleton s \<Longrightarrow> audioContextRef s = Some c \<Longrightarrow> c = 0 \<and> length (contexts s) = 1"
  by (simp add: context_singleton_def)

lemma initial_not_closed: "context_state initialState c \<noteq> Some Closed"
  by (simp add: context_state_def initialState_def)

lemma unmount_closes:
  "audioContextRef s = Some c \<Longrightarrow> c < length (contexts s) \<Longrightarrow> mounted s \<Longrightarrow>
     context_state (step Unmount s) c = Some Closed"
  by (simp add: unmount_def)

section \<open>Source nodes across events\<close>

lemma source_state_more_simps [simp]:
  "source_state (s\<lparr>waiting := w\<rparr>) j = source_state s j"
  "source_state (s\<lparr>result := res\<rparr>) j = source_state s j"
  "source_state (s\<lparr>status := st'\<rparr>) j = source_state s j"
  "source_state (s\<lparr>error := er\<rparr>) j = source_state s j"
  "source_state (s\<lparr>videoUrl := v\<rparr>) j = source_state s j"
  "source_state (s\<lparr>mounted := m\<rparr>) j = source_state s j"
  by (simp_all add: source_state_def)

lemma source_state_cong: "sources s' = sources s \<Longrightarrow> source_state s' j = source_state s j"
  by (simp add: source_state_def)






lemma startNewAudio_decode_source_state [simp]:
  "source_state (snd (startNewAudio_decode base64 s)) j = source_state s j"
  by (rule source_state_cong) simp

















section \<open>Stopping\<close>



text \<open>
  C10. \<open>stopAudio\<close> does not leave the shared context suspended. When playback is paused
  (the context the ref holds is suspended), it halts the source and resumes the context,
  which stays the one the ref holds, so the next play on it runs: the call completes, the
  context is running and the new source is playing.
\<close>

theorem stopAudio_resumes_suspended_context:
  assumes "audioContextRef s = Some c"
  shows "context_state (snd (stopAudio s)) c \<noteq> Some Suspended \<and>
         audioContextRef (snd (stopAudio s)) = Some c \<and>
         length (contexts (snd (stopAudio s))) = length (contexts s) \<and>
         (context_state s c = Some Suspended \<longrightarrow>
            context_state (snd (stopAudio s)) c = Some Running \<and>
            (\<forall>i. activeSourceRef s = Some i \<and> source_state s i = Some Playing \<longrightarrow>
                   source_state (snd (stopAudio s)) i = Some Stopped) \<and>
            (\<forall>base64 bytes. decode base64 = Inr bytes \<longrightarrow>
               fst (startNewAudio base64 (snd (stopAudio s))) = None \<and>
               audioContextRef (snd (startNewAudio base64 (snd (stopAudio s)))) = Some c \<and>
               context_state (snd (startNewAudio base64 (snd (stopAudio s)))) c = Some Running \<and>
               source_state (snd (startNewAudio base64 (snd (stopAudio s)))) (length (sources s))
                 = Some Playing))"
proof -
  let ?t = "snd (stopAudio s)"
  have a: "context_state ?t c \<noteq> Some Suspended"
    using assms by (simp add: stopAudio_context_state)
  have b: "audioContextRef ?t = Some c"
    using assms by simp
  have c: "length (contexts ?t) = length (contexts s)"
    by simp
  have d: "context_state ?t c = Some Running" if "context_state s c = Some Suspended"
    using assms that by (simp add: stopAudio_context_state)
  have e: "source_state ?t i = Some Stopped"
    if "activeSourceRef s = Some i \<and> source_state s i = Some Playing" for i
    using that by (simp add: stopAudio_source_state)
  have f: "fst (startNewAudio base64 ?t) = None \<and>
           audioContextRef (snd (startNewAudio base64 ?t)) = Some c \<and>
           context_state (snd (startNewAudio base64 ?t)) c = Some Running \<and>
           source_state (snd (startNewAudio base64 ?t)) (length (sources s)) = Some Playing"
    if susp: "context_state s c = Some Suspended" and dec: "decode base64 = Inr bytes"
    for base64 bytes
  proof -
    have run: "context_state (snd (startNewAudio_prepare ?t)) c = Some Running"
      using d [OF susp]
      by (simp add: startNewAudio_prepare_context_state [OF b] stopAudio_idem)
    show ?thesis
      using run b
      by (simp add: startNewAudio_valid [OF dec] startNewAudio_attach_eq
          startNewAudio_prepare_fields startNewAudio_prepare_sources stopAudio_idem)
  qed
  show ?thesis
    using a b c d e f by blast
qed

theorem stopAudio_resumes_suspended_context_witness:
  "audioContextRef pausedPlayback = Some 0 \<and>
   context_state pausedPlayback 0 = Some Suspended \<and>
   isPaused pausedPlayback \<and>
   source_state pausedPlayback 0 = Some Playing \<and>
   context_state (snd (stopAudio pausedPlayback)) 0 = Some Running \<and>
   source_state (snd (stopAudio pausedPlayback)) 0 = Some Stopped \<and>
   context_state (snd (startNewAudio ''AAAA'' (snd (stopAudio pausedPlayback)))) 0 = Some Running \<and>
   source_state (snd (startNewAudio ''AAAA'' (snd (stopAudio pausedPlayback)))) 1 = Some Playing"
proof -
  have h1: "audioContextRef pausedPlayback = Some 0" by code_simp
  have h2: "context_state pausedPlayback 0 = Some Suspended" by code_simp
  have h3: "isPaused pausedPlayback" by code_simp
  have h4: "activeSourceRef pausedPlayback = Some 0 \<and> source_state pausedPlayback 0 = Some Playing"
    by code_simp
  have h5: "decode ''AAAA'' = Inr [0, 0, 0]" by code_simp
  have h6: "length (sources pausedPlayback) = 1" by code_simp
  show ?thesis
    using stopAudio_resumes_suspended_context [OF h1] h1 h2 h3 h4 h5 h6 by simp
qed

section \<open>Playing\<close>

text \<open>
  \<open>startNewAudio\<close> and \<open>playAudio\<close> as single functions are the calls with their waits
  resumed at once: the call, then the resumption of the continuation it left, again when
  that one waits a second time.
\<close>

lemma startNewAudio_uninterrupted:
  "snd (startNewAudio base64 s) =
     (let n = length (waiting s);
          s1 = snd (startNewAudio_call base64 s);
          s2 = snd (startNewAudio_resumed n s1)
      in if n < length (waiting s2) then snd (startNewAudio_resumed n s2) else s2)"
proof -
  let ?p = "snd (startNewAudio_prepare s)"
  have w: "waiting ?p = waiting s"
    by simp
  have atomic: "snd (startNewAudio base64 s) =
      (case decode base64 of
         Inl e \<Rightarrow> ?p
       | Inr bytes \<Rightarrow> snd (startNewAudio_attach (monoBuffer bytes) ?p))"
    using startNewAudio_prepare_ok [of s]
    by (simp add: startNewAudio_def andThen_def mono_decodeAudioData split: sum.split)
  have call: "snd (startNewAudio_call base64 s) = ?p\<lparr>waiting := waiting s @ [AwaitResume base64]\<rparr> \<or>
      snd (startNewAudio_call base64 s) = snd (startNewAudio_decode base64 ?p)"
    using w
    by (simp add: startNewAudio_call_def startNewAudio_prepare_def andThen_def stopAudio_ok
        Let_def context_resume_def ensureAudioContext_ref split: option.split)
  have same: "?p\<lparr>waiting := waiting s\<rparr> = ?p"
    using w by simp
  from call show ?thesis
  proof
    assume c: "snd (startNewAudio_call base64 s) = ?p\<lparr>waiting := waiting s @ [AwaitResume base64]\<rparr>"
    show ?thesis
      unfolding atomic c
      by (cases "decode base64")
        (simp_all add: Let_def startNewAudio_resumed_def startNewAudio_decode_eq
          startNewAudio_attach_eq same)
  next
    assume c: "snd (startNewAudio_call base64 s) = snd (startNewAudio_decode base64 ?p)"
    show ?thesis
      unfolding atomic c
      by (cases "decode base64")
        (simp_all add: Let_def startNewAudio_resumed_def startNewAudio_decode_eq
          startNewAudio_attach_eq w same)
  qed
qed

lemma playAudio_uninterrupted:
  "snd (playAudio base64 s) =
     snd (playAudio_resumed (length (waiting s)) (snd (playAudio_call base64 s)))"
proof -
  have ens: "(ensureAudioContext t)\<lparr>waiting := waiting t\<rparr> = ensureAudioContext t" for t
    using waiting_fields(3) [of t, symmetric] by simp
  have stop: "(ensureAudioContext (snd (source_stop i s)))\<lparr>waiting := waiting s\<rparr>
      = ensureAudioContext (snd (source_stop i s))" for i
    using ens [of "snd (source_stop i s)"] by simp
  show ?thesis
  proof (cases "activeSourceRef s")
    case None
    then show ?thesis
      by (simp add: playAudio_def playAudio_call_def playAudio_resumed_def playAudio_attach_def
          Let_def ens split: sum.split)
  next
    case (Some i)
    show ?thesis
    proof (cases "fst (source_stop i s)")
      case None
      then have pair: "source_stop i s = (None, snd (source_stop i s))"
        by (metis prod.collapse)
      show ?thesis
        using \<open>activeSourceRef s = Some i\<close>
        apply (simp add: playAudio_def playAudio_call_def)
        apply (subst pair, subst (2) pair)
        apply (simp add: playAudio_resumed_def playAudio_attach_def Let_def ens stop
            split: sum.split)
        done
    next
      case (Some e)
      then have "source_stop i s = (Some e, s)"
        by (auto simp add: source_stop_def split: if_splits PlayState.splits)
      then show ?thesis
        using \<open>activeSourceRef s = Some i\<close>
        by (simp add: playAudio_def playAudio_call_def playAudio_resumed_def)
    qed
  qed
qed

text \<open>
  What the stop at the head of a play achieves when nothing comes between the call and
  its resumption. The source the ref holds is halted before the new one exists; after
  play(A) and play(B), each with a payload that decodes, A's source is stopped, B's is
  playing and is the one the ref holds, and B's is the only one playing when every source
  that played before was the one the ref held. \<open>playAudio\<close> does not guard its \<open>stop()\<close>
  by a \<open>try\<close> and therefore needs a tracked source that was started.
\<close>

lemma uninterrupted_plays_replace:
  assumes "decode a = Inr bytesA" and "decode b = Inr bytesB"
  shows
    "(\<forall>i. activeSourceRef s = Some i \<and> source_state s i = Some Playing \<longrightarrow>
        source_state (snd (startNewAudio_prepare s)) i = Some Stopped \<and>
        length (sources (snd (startNewAudio_prepare s))) = length (sources s) \<and>
        source_state (snd (startNewAudio b s)) i = Some Stopped \<and>
        source_state (snd (startNewAudio b s)) (length (sources s)) = Some Playing) \<and>
     fst (startNewAudio a s) = None \<and>
     fst (startNewAudio b (snd (startNewAudio a s))) = None \<and>
     source_state (snd (startNewAudio b (snd (startNewAudio a s)))) (length (sources s))
       = Some Stopped \<and>
     source_state (snd (startNewAudio b (snd (startNewAudio a s)))) (Suc (length (sources s)))
       = Some Playing \<and>
     activeSourceRef (snd (startNewAudio b (snd (startNewAudio a s))))
       = Some (Suc (length (sources s))) \<and>
     isPlaying (snd (startNewAudio b (snd (startNewAudio a s)))) \<and>
     (set (playing_ids s) \<subseteq> set_option (activeSourceRef s) \<longrightarrow>
        playing_ids (snd (startNewAudio b (snd (startNewAudio a s)))) = [Suc (length (sources s))]) \<and>
     ((\<forall>i. activeSourceRef s = Some i \<longrightarrow> source_state s i \<noteq> Some Unstarted) \<longrightarrow>
        fst (playAudio (Some a) s) = None \<and>
        fst (playAudio (Some b) (snd (playAudio (Some a) s))) = None \<and>
        source_state (snd (playAudio (Some b) (snd (playAudio (Some a) s)))) (length (sources s))
          = Some Stopped \<and>
        source_state (snd (playAudio (Some b) (snd (playAudio (Some a) s)))) (Suc (length (sources s)))
          = Some Playing \<and>
        activeSourceRef (snd (playAudio (Some b) (snd (playAudio (Some a) s))))
          = Some (Suc (length (sources s))) \<and>
        isPlaying (snd (playAudio (Some b) (snd (playAudio (Some a) s)))) \<and>
        (set (playing_ids s) \<subseteq> set_option (activeSourceRef s) \<longrightarrow>
           playing_ids (snd (playAudio (Some b) (snd (playAudio (Some a) s))))
             = [Suc (length (sources s))]))"
proof -
  let ?n = "length (sources s)"
  let ?sA = "snd (startNewAudio a s)"
  let ?sB = "snd (startNewAudio b ?sA)"
  note A = startNewAudio_play [OF assms(1), of s]
  note B = startNewAudio_play [OF assms(2), of ?sA]
  have first: "source_state (snd (startNewAudio_prepare s)) i = Some Stopped \<and>
        length (sources (snd (startNewAudio_prepare s))) = length (sources s) \<and>
        source_state (snd (startNewAudio b s)) i = Some Stopped \<and>
        source_state (snd (startNewAudio b s)) (length (sources s)) = Some Playing"
    if "activeSourceRef s = Some i \<and> source_state s i = Some Playing" for i
  proof -
    have "i < ?n" using that by (auto dest: source_state_lt)
    moreover have "source_state (snd (startNewAudio_prepare s)) i = source_state (snd (stopAudio s)) i"
      by (simp add: source_state_def startNewAudio_prepare_sources)
    ultimately show ?thesis
      using that
      by (simp add: startNewAudio_play(6) [OF assms(2)] startNewAudio_prepare_sources
          stopAudio_source_state)
  qed
  have stB: "source_state ?sB j =
        (if j = Suc ?n then Some Playing
         else if j = ?n then Some Stopped
         else if activeSourceRef s = Some j \<and> source_state s j = Some Playing then Some Stopped
         else source_state s j)" for j
    by (simp add: B(6) A(2) A(5) A(6))
  have lenB: "length (sources ?sB) = Suc (Suc ?n)"
    by (simp add: B(5) A(5))
  have web: "fst (startNewAudio a s) = None \<and> fst (startNewAudio b ?sA) = None \<and>
     source_state ?sB ?n = Some Stopped \<and> source_state ?sB (Suc ?n) = Some Playing \<and>
     activeSourceRef ?sB = Some (Suc ?n) \<and> isPlaying ?sB"
    by (simp add: A(1) B(1) stB B(2) B(3) A(5))
  have webOnly: "playing_ids ?sB = [Suc ?n]"
    if "set (playing_ids s) \<subseteq> set_option (activeSourceRef s)"
    by (rule playing_after_two [OF stB lenB refl that])
  have desk: "fst (playAudio (Some a) s) = None \<and>
        fst (playAudio (Some b) (snd (playAudio (Some a) s))) = None \<and>
        source_state (snd (playAudio (Some b) (snd (playAudio (Some a) s)))) ?n = Some Stopped \<and>
        source_state (snd (playAudio (Some b) (snd (playAudio (Some a) s)))) (Suc ?n) = Some Playing \<and>
        activeSourceRef (snd (playAudio (Some b) (snd (playAudio (Some a) s)))) = Some (Suc ?n) \<and>
        isPlaying (snd (playAudio (Some b) (snd (playAudio (Some a) s)))) \<and>
        (set (playing_ids s) \<subseteq> set_option (activeSourceRef s) \<longrightarrow>
           playing_ids (snd (playAudio (Some b) (snd (playAudio (Some a) s)))) = [Suc ?n])"
    if started: "\<forall>i. activeSourceRef s = Some i \<longrightarrow> source_state s i \<noteq> Some Unstarted"
  proof -
    let ?dA = "snd (playAudio (Some a) s)"
    let ?dB = "snd (playAudio (Some b) ?dA)"
    note DA = playAudio_play [OF assms(1) started]
    have startedA: "\<forall>i. activeSourceRef ?dA = Some i \<longrightarrow> source_state ?dA i \<noteq> Some Unstarted"
      by (simp add: DA(2) DA(5))
    note DB = playAudio_play [OF assms(2) startedA]
    have stD: "source_state ?dB j =
        (if j = Suc ?n then Some Playing
         else if j = ?n then Some Stopped
         else if activeSourceRef s = Some j \<and> source_state s j = Some Playing then Some Stopped
         else source_state s j)" for j
      by (simp add: DB(5) DA(2) DA(4) DA(5))
    have lenD: "length (sources ?dB) = Suc (Suc ?n)"
      by (simp add: DB(4) DA(4))
    have "playing_ids ?dB = [Suc ?n]" if "set (playing_ids s) \<subseteq> set_option (activeSourceRef s)"
      by (rule playing_after_two [OF stD lenD refl that])
    then show ?thesis
      by (simp add: DA(1) DB(1) stD DB(2) DB(3) DA(4))
  qed
  show ?thesis
    using first web webOnly desk by blast
qed

text \<open>
  C1 fails in both components: two sources can play at once, and the existing session is
  not always stopped before the new source starts. The stop at the head of a play halts
  only the source that \<open>activeSourceRef\<close> holds at that moment, and the ref is set only
  after the call has waited.

  In the component with full controls, the first narration's play waits for the new
  context to resume; the play button is rendered and nothing plays yet, so a click starts a
  second call, and both calls go on to start a source: sources 0 and 1 play together, and
  \<open>stopAudio\<close> then halts only the one the ref holds. In the desktop component a click
  on the play button while the play of \<open>processVideo\<close> waits for the decoder does the
  same. Also without any call waiting: after two narrations, the \<open>ended\<close> event of the
  stopped first source clears the ref while the second source plays, so \<open>stopAudio\<close>
  silences nothing and the next play leaves sources 1 and 2 playing together. The desktop
  handler leaves the ref alone, and there the next play does stop the playing source.
\<close>

theorem plays_overlap:
  "audio_controls_rendered (run (take 2 playClickedWhilePlayWaits) initialState) \<and>
   \<not> isPlaying (run (take 2 playClickedWhilePlayWaits) initialState) \<and>
   activeSourceRef (run (take 2 playClickedWhilePlayWaits) initialState) = None \<and>
   waiting (run (take 2 playClickedWhilePlayWaits) initialState) = [AwaitResume ''AAAA''] \<and>
   length (waiting (run (take 3 playClickedWhilePlayWaits) initialState)) = 2 \<and>
   activeSourceRef (run (take 3 playClickedWhilePlayWaits) initialState) = None \<and>
   playing_ids (run playClickedWhilePlayWaits initialState) = [0, 1] \<and>
   activeSourceRef (run playClickedWhilePlayWaits initialState) = Some 1 \<and>
   playing_ids (run (playClickedWhilePlayWaits @ [StopAudio]) initialState) = [0] \<and>
   playing_ids (desktop_run desktopPlayClickedWhilePlayWaits initialState) = [0, 1] \<and>
   playing_ids (run twoNarrations initialState) = [1] \<and>
   activeSourceRef (run twoNarrations initialState) = Some 1 \<and>
   activeSourceRef (run (twoNarrations @ [SourceEnded 0]) initialState) = None \<and>
   playing_ids (run (twoNarrations @ [SourceEnded 0, StopAudio]) initialState) = [1] \<and>
   playing_ids (run (twoNarrations @ [SourceEnded 0, TogglePlayback, PlayResumed 0]) initialState)
     = [1, 2] \<and>
   playing_ids
     (desktop_run (desktopTwoNarrations @ [DSourceEnded 0, Reproducir, DPlayResumed 0]) initialState)
     = [2]"
  by code_simp
section \<open>The end-of-playback notification\<close>



section \<open>The shared audio context\<close>

text \<open>
  C8. The \<open>AudioContext\<close> is created lazily, at most once, and reused. No context exists
  when the component mounts; a play that finds the ref empty constructs one, and a play
  that finds a context keeps it and constructs none. Over every sequence of events of
  either component, from the initial state, at most one context is ever constructed, the
  ref keeps holding it, and no context is closed unless the component unmounts; the
  cleanup on unmount closes it. The desktop component has no cleanup and never closes its
  context.
\<close>

theorem audio_context_created_once_and_reused:
  "audioContextRef initialState = None \<and> contexts initialState = [] \<and>
   (audioContextRef s = None \<longrightarrow>
      audioContextRef (snd (startNewAudio base64 s)) = Some (length (contexts s)) \<and>
      length (contexts (snd (startNewAudio base64 s))) = Suc (length (contexts s))) \<and>
   (\<forall>c. audioContextRef s = Some c \<longrightarrow>
      audioContextRef (snd (startNewAudio base64 s)) = Some c \<and>
      length (contexts (snd (startNewAudio base64 s))) = length (contexts s) \<and>
      audioContextRef (snd (playAudio v s)) = Some c \<and>
      length (contexts (snd (playAudio v s))) = length (contexts s)) \<and>
   length (contexts (run es initialState)) \<le> 1 \<and>
   (\<forall>c. audioContextRef (run es initialState) = Some c \<longrightarrow>
      c = 0 \<and> audioContextRef (run (es @ es') initialState) = Some c \<and>
      length (contexts (run (es @ es') initialState)) = 1) \<and>
   (Unmount \<notin> set es \<longrightarrow> (\<forall>c. context_state (run es initialState) c \<noteq> Some Closed)) \<and>
   (\<forall>c. audioContextRef (run es initialState) = Some c \<and> mounted (run es initialState) \<longrightarrow>
      context_state (run (es @ [Unmount]) initialState) c = Some Closed) \<and>
   length (contexts (desktop_run des initialState)) \<le> 1 \<and>
   (\<forall>c. audioContextRef (desktop_run des initialState) = Some c \<longrightarrow>
      c = 0 \<and> audioContextRef (desktop_run (des @ des') initialState) = Some c \<and>
      length (contexts (desktop_run (des @ des') initialState)) = 1) \<and>
   (\<forall>c. context_state (desktop_run des initialState) c \<noteq> Some Closed)"
proof -
  have init: "audioContextRef initialState = None \<and> contexts initialState = []"
    by (simp add: initialState_def)
  have create: "audioContextRef (snd (startNewAudio base64 s)) = Some (length (contexts s)) \<and>
      length (contexts (snd (startNewAudio base64 s))) = Suc (length (contexts s))"
    if "audioContextRef s = None"
    using that
    by (simp add: startNewAudio_contexts startNewAudio_prepare_fields
        startNewAudio_prepare_length_contexts)
  have reuse: "audioContextRef (snd (startNewAudio base64 s)) = Some c \<and>
      length (contexts (snd (startNewAudio base64 s))) = length (contexts s) \<and>
      audioContextRef (snd (playAudio v s)) = Some c \<and>
      length (contexts (snd (playAudio v s))) = length (contexts s)"
    if ref: "audioContextRef s = Some c" for c
  proof -
    have "length (contexts (snd (playAudio v s))) = length (contexts s)"
      using playAudio_ctx [of v s] ref by (auto simp add: ensureAudioContext_def)
    then show ?thesis
      using ref
      by (simp add: startNewAudio_contexts startNewAudio_prepare_fields
          startNewAudio_prepare_length_contexts playAudio_contexts(3))
  qed
  have single: "context_singleton (run xs initialState)" for xs
    by (rule run_singleton [OF initial_singleton])
  have dsingle: "context_singleton (desktop_run xs initialState)" for xs
    by (rule desktop_run_singleton [OF initial_singleton])
  have web1: "length (contexts (run es initialState)) \<le> 1"
    by (rule context_singleton_length_le [OF single])
  have web2: "c = 0 \<and> audioContextRef (run (es @ es') initialState) = Some c \<and>
      length (contexts (run (es @ es') initialState)) = 1"
    if ref: "audioContextRef (run es initialState) = Some c" for c
  proof -
    have later: "audioContextRef (run (es @ es') initialState) = Some c"
      unfolding run_append by (rule run_keeps_context [OF ref])
    show ?thesis
      using context_singleton_Some [OF single ref] context_singleton_Some [OF single later] later
      by simp
  qed
  have web3: "context_state (run es initialState) c \<noteq> Some Closed" if "Unmount \<notin> set es" for c
    using run_closed [OF that, of initialState c] initial_not_closed [of c] by blast
  have web4: "context_state (run (es @ [Unmount]) initialState) c = Some Closed"
    if "audioContextRef (run es initialState) = Some c \<and> mounted (run es initialState)" for c
  proof -
    have "c < length (contexts (run es initialState))"
      using context_singleton_Some [OF single, of es c] that by simp
    then show ?thesis
      using that by (simp add: run_snoc unmount_def)
  qed
  have desk1: "length (contexts (desktop_run des initialState)) \<le> 1"
    by (rule context_singleton_length_le [OF dsingle])
  have desk2: "c = 0 \<and> audioContextRef (desktop_run (des @ des') initialState) = Some c \<and>
      length (contexts (desktop_run (des @ des') initialState)) = 1"
    if ref: "audioContextRef (desktop_run des initialState) = Some c" for c
  proof -
    have later: "audioContextRef (desktop_run (des @ des') initialState) = Some c"
      unfolding desktop_run_append by (rule desktop_run_keeps_context [OF ref])
    show ?thesis
      using context_singleton_Some [OF dsingle ref] context_singleton_Some [OF dsingle later] later
      by simp
  qed
  have desk3: "context_state (desktop_run des initialState) c \<noteq> Some Closed" for c
    using desktop_run_closed [of des initialState c] initial_not_closed [of c] by blast
  show ?thesis
    using init create reuse web1 web2 web3 web4 desk1 desk2 desk3 by blast
qed

theorem audio_context_created_once_and_reused_witness:
  "audioContextRef (run [FileUpload ''clip.mp4''] initialState) = None \<and>
   audioContextRef (run twoNarrations initialState) = Some 0 \<and>
   audioContextRef (run (twoNarrations @ [SourceEnded 0, TogglePlayback]) initialState) = Some 0 \<and>
   length (contexts (run (twoNarrations @ [SourceEnded 0, TogglePlayback]) initialState)) = 1 \<and>
   context_state (run twoNarrations initialState) 0 = Some Running \<and>
   context_state (run (twoNarrations @ [Unmount]) initialState) 0 = Some Closed \<and>
   audioContextRef (desktop_run desktopTwoNarrations initialState) = Some 0 \<and>
   length (contexts (desktop_run (desktopTwoNarrations @ [Reproducir]) initialState)) = 1"
proof -
  have h: "audioContextRef (run [FileUpload ''clip.mp4''] initialState) = None"
    "audioContextRef (run twoNarrations initialState) = Some 0"
    "mounted (run twoNarrations initialState)"
    "context_state (run twoNarrations initialState) 0 = Some Running"
    "audioContextRef (desktop_run desktopTwoNarrations initialState) = Some 0"
    by code_simp+
  show ?thesis
    using h
      audio_context_created_once_and_reused
        [of initialState "''AAAA''" None twoNarrations "[SourceEnded 0, TogglePlayback]"
            desktopTwoNarrations "[Reproducir]"]
    by simp
qed

section \<open>The WAV encoder: basic facts\<close>

lemma le16_value:
  "(n::nat) mod 256 + 256 * (n div 256 mod 256) = n mod 65536"
  using mod_mult2_eq [of n 256 256] by simp

lemma le32_value:
  "(n::nat) mod 256 + 256 * (n div 256 mod 256) + 65536 * (n div 65536 mod 256)
     + 16777216 * (n div 16777216 mod 256) = n mod 4294967296"
  using mod_mult2_eq [of n 65536 65536] le16_value [of n] le16_value [of "n div 65536"]
    div_mult2_eq [of n 65536 256]
  by simp

lemma unat_byte: "unat (of_nat n :: 8 word) = n mod 256"
  by (simp add: unat_of_nat)

lemma length_wavHeader: "length (wavHeader channelCount rate dataLen) = 44"
  by (simp add: wavHeader_def ascii_def le32_def le16_def)


lemma wavHeader_fields:
  "take 4 (wavHeader ch rate len @ rest) = ascii ''RIFF''"
  "take 4 (drop 8 (wavHeader ch rate len @ rest)) = ascii ''WAVE''"
  "take 4 (drop 12 (wavHeader ch rate len @ rest)) = ascii ''fmt ''"
  "take 4 (drop 36 (wavHeader ch rate len @ rest)) = ascii ''data''"
  by (simp_all add: wavHeader_def ascii_def le32_def le16_def)

lemma length_le [simp]: "length (le16 n) = 2" "length (le32 n) = 4" "length (ascii str) = length str"
  by (simp_all add: le16_def le32_def ascii_def)

lemma rd16_le16: "off = length pre \<Longrightarrow> rd16 (pre @ le16 n @ post) off = n mod 65536"
  by (simp add: rd16_def le16_def nth_append unat_byte le16_value)

lemma rd32_le32: "off = length pre \<Longrightarrow> rd32 (pre @ le32 n @ post) off = n mod 4294967296"
  by (simp add: rd32_def le32_def nth_append unat_byte le32_value)

lemma wavHeader_numbers:
  "rd32 (wavHeader ch rate len @ rest) 4 = (len + 36) mod 4294967296"
  "rd32 (wavHeader ch rate len @ rest) 16 = 16"
  "rd16 (wavHeader ch rate len @ rest) 20 = 1"
  "rd16 (wavHeader ch rate len @ rest) 22 = ch mod 65536"
  "rd32 (wavHeader ch rate len @ rest) 24 = rate mod 4294967296"
  "rd32 (wavHeader ch rate len @ rest) 28 = (rate * ch * 2) mod 4294967296"
  "rd16 (wavHeader ch rate len @ rest) 32 = (ch * 2) mod 65536"
  "rd16 (wavHeader ch rate len @ rest) 34 = 16"
  "rd32 (wavHeader ch rate len @ rest) 40 = len mod 4294967296"
proof -
  let ?a = "ascii ''RIFF''" and ?b = "le32 (len + 36)" and ?c = "ascii ''WAVE''"
    and ?d = "ascii ''fmt ''" and ?e = "le32 16" and ?f = "le16 1" and ?g = "le16 ch"
    and ?h = "le32 rate" and ?i = "le32 (rate * ch * 2)" and ?j = "le16 (ch * 2)"
    and ?k = "le16 16" and ?l = "ascii ''data''" and ?m = "le32 len"
  have whole: "wavHeader ch rate len @ rest =
      ?a @ ?b @ ?c @ ?d @ ?e @ ?f @ ?g @ ?h @ ?i @ ?j @ ?k @ ?l @ ?m @ rest"
    by (simp add: wavHeader_def)
  show "rd32 (wavHeader ch rate len @ rest) 4 = (len + 36) mod 4294967296"
    unfolding whole by (rule rd32_le32) simp
  have "rd32 (wavHeader ch rate len @ rest) 16 = 16 mod 4294967296"
    using rd32_le32 [of 16 "?a @ ?b @ ?c @ ?d" 16 "?f @ ?g @ ?h @ ?i @ ?j @ ?k @ ?l @ ?m @ rest"]
    by (simp add: whole)
  then show "rd32 (wavHeader ch rate len @ rest) 16 = 16" by simp
  have "rd16 (wavHeader ch rate len @ rest) 20 = 1 mod 65536"
    using rd16_le16 [of 20 "?a @ ?b @ ?c @ ?d @ ?e" 1 "?g @ ?h @ ?i @ ?j @ ?k @ ?l @ ?m @ rest"]
    by (simp add: whole)
  then show "rd16 (wavHeader ch rate len @ rest) 20 = 1" by simp
  show "rd16 (wavHeader ch rate len @ rest) 22 = ch mod 65536"
    using rd16_le16 [of 22 "?a @ ?b @ ?c @ ?d @ ?e @ ?f" ch "?h @ ?i @ ?j @ ?k @ ?l @ ?m @ rest"]
    by (simp add: whole)
  show "rd32 (wavHeader ch rate len @ rest) 24 = rate mod 4294967296"
    using rd32_le32 [of 24 "?a @ ?b @ ?c @ ?d @ ?e @ ?f @ ?g" rate "?i @ ?j @ ?k @ ?l @ ?m @ rest"]
    by (simp add: whole)
  show "rd32 (wavHeader ch rate len @ rest) 28 = (rate * ch * 2) mod 4294967296"
    using rd32_le32 [of 28 "?a @ ?b @ ?c @ ?d @ ?e @ ?f @ ?g @ ?h" "rate * ch * 2"
        "?j @ ?k @ ?l @ ?m @ rest"]
    by (simp add: whole)
  show "rd16 (wavHeader ch rate len @ rest) 32 = (ch * 2) mod 65536"
    using rd16_le16 [of 32 "?a @ ?b @ ?c @ ?d @ ?e @ ?f @ ?g @ ?h @ ?i" "ch * 2"
        "?k @ ?l @ ?m @ rest"]
    by (simp add: whole)
  have "rd16 (wavHeader ch rate len @ rest) 34 = 16 mod 65536"
    using rd16_le16 [of 34 "?a @ ?b @ ?c @ ?d @ ?e @ ?f @ ?g @ ?h @ ?i @ ?j" 16 "?l @ ?m @ rest"]
    by (simp add: whole)
  then show "rd16 (wavHeader ch rate len @ rest) 34 = 16" by simp
  show "rd32 (wavHeader ch rate len @ rest) 40 = len mod 4294967296"
    using rd32_le32 [of 40 "?a @ ?b @ ?c @ ?d @ ?e @ ?f @ ?g @ ?h @ ?i @ ?j @ ?k @ ?l" len rest]
    by (simp add: whole)
qed

lemma length_concat_pairs:
  "(\<And>x. length (f x) = k) \<Longrightarrow> length (concat (map f xs)) = k * length xs"
  by (induction xs) simp_all

lemma length_interleaved: "length (interleaved b) = frameCount b * numberOfChannels b"
  unfolding interleaved_def
  by (subst length_concat_pairs [where k = "numberOfChannels b"]) simp_all

lemma length_wavData: "length (wavData rnd inp) = dataByteLength inp"
proof (cases inp)
  case (RawPcm bytes)
  then show ?thesis by (simp add: wavData_def dataByteLength_def)
next
  case (Samples b)
  have "length (concat (map (\<lambda>x. int16_bytes (quantize rnd x)) (interleaved b)))
      = 2 * length (interleaved b)"
    by (rule length_concat_pairs) (simp add: int16_bytes_def)
  with Samples show ?thesis
    by (simp add: wavData_def dataByteLength_def length_interleaved)
qed

section \<open>The WAV file\<close>

text \<open>
  C5. For every input, the encoder's output is exactly 44 bytes longer than the PCM data;
  bytes 0 to 3 are \<open>RIFF\<close> and bytes 8 to 11 are \<open>WAVE\<close>; the \<open>fmt\<close> chunk carries audio
  format 1, 16 bits per sample, byte rate \<open>sampleRate * channelCount * 2\<close> and block align
  \<open>channelCount * 2\<close> (the fields are 32 and 16 bits wide: they hold these values whenever
  the values fit). \<open>createWavBlob\<close> is the encoder on raw mono bytes, which follow the
  header unchanged. The encoder is a function of its arguments: pure and deterministic.
\<close>

theorem encodeWav_layout:
  "length (encodeWav rnd inp rate) = 44 + dataByteLength inp \<and>
   take 4 (encodeWav rnd inp rate) = ascii ''RIFF'' \<and>
   take 4 (drop 8 (encodeWav rnd inp rate)) = ascii ''WAVE'' \<and>
   take 4 (drop 12 (encodeWav rnd inp rate)) = ascii ''fmt '' \<and>
   rd16 (encodeWav rnd inp rate) 20 = 1 \<and>
   rd16 (encodeWav rnd inp rate) 34 = 16 \<and>
   rd32 (encodeWav rnd inp rate) 28 = (rate * wavChannels inp * 2) mod 4294967296 \<and>
   rd16 (encodeWav rnd inp rate) 32 = (wavChannels inp * 2) mod 65536 \<and>
   (rate * wavChannels inp * 2 < 4294967296 \<and> wavChannels inp * 2 < 65536 \<longrightarrow>
      rd32 (encodeWav rnd inp rate) 28 = rate * wavChannels inp * 2 \<and>
      rd16 (encodeWav rnd inp rate) 32 = wavChannels inp * 2) \<and>
   length (createWavBlob bytes rate) = 44 + length bytes \<and>
   take 4 (createWavBlob bytes rate) = ascii ''RIFF'' \<and>
   take 4 (drop 8 (createWavBlob bytes rate)) = ascii ''WAVE'' \<and>
   rd16 (createWavBlob bytes rate) 20 = 1 \<and>
   rd16 (createWavBlob bytes rate) 34 = 16 \<and>
   rd32 (createWavBlob bytes rate) 28 = (rate * 1 * 2) mod 4294967296 \<and>
   rd16 (createWavBlob bytes rate) 32 = 1 * 2 \<and>
   drop 44 (createWavBlob bytes rate) = bytes"
proof -
  have len: "length (encodeWav rnd' inp' rate) = 44 + dataByteLength inp'" for rnd' inp'
    by (simp add: encodeWav_def length_wavHeader length_wavData)
  have magic: "take 4 (encodeWav rnd' inp' rate) = ascii ''RIFF'' \<and>
      take 4 (drop 8 (encodeWav rnd' inp' rate)) = ascii ''WAVE'' \<and>
      take 4 (drop 12 (encodeWav rnd' inp' rate)) = ascii ''fmt ''" for rnd' inp'
    unfolding encodeWav_def by (simp only: wavHeader_fields simp_thms)
  have fmt: "rd16 (encodeWav rnd' inp' rate) 20 = 1 \<and> rd16 (encodeWav rnd' inp' rate) 34 = 16 \<and>
      rd32 (encodeWav rnd' inp' rate) 28 = (rate * wavChannels inp' * 2) mod 4294967296 \<and>
      rd16 (encodeWav rnd' inp' rate) 32 = (wavChannels inp' * 2) mod 65536" for rnd' inp'
    unfolding encodeWav_def by (simp only: wavHeader_numbers simp_thms)
  have fits: "rd32 (encodeWav rnd inp rate) 28 = rate * wavChannels inp * 2 \<and>
      rd16 (encodeWav rnd inp rate) 32 = wavChannels inp * 2"
    if "rate * wavChannels inp * 2 < 4294967296 \<and> wavChannels inp * 2 < 65536"
    using that fmt [of rnd inp] by simp
  have blob: "createWavBlob bytes rate = encodeWav floor (RawPcm bytes) rate"
    by (simp add: createWavBlob_def)
  have mono: "wavChannels (RawPcm bytes) = 1" "dataByteLength (RawPcm bytes) = length bytes"
    by (simp_all add: wavChannels_def dataByteLength_def)
  have data: "drop 44 (createWavBlob bytes rate) = bytes"
    by (simp add: blob encodeWav_def length_wavHeader wavData_def)
  have two: "rd16 (createWavBlob bytes rate) 32 = 1 * 2"
    using fmt [of floor "RawPcm bytes"] by (simp add: blob mono)
  show ?thesis
    using len [of rnd inp] magic [of rnd inp] fmt [of rnd inp] fits
      len [of floor "RawPcm bytes"] magic [of floor "RawPcm bytes"] fmt [of floor "RawPcm bytes"]
      data two
    unfolding blob mono by blast
qed

theorem encodeWav_layout_witness:
  "length (createWavBlob [0x00, 0x80, 0xFF, 0x7F] 24000) = 48 \<and>
   rd32 (createWavBlob [0x00, 0x80, 0xFF, 0x7F] 24000) 28 = 48000 \<and>
   rd16 (createWavBlob [0x00, 0x80, 0xFF, 0x7F] 24000) 32 = 2 \<and>
   length (encodeWav round (Samples \<lparr>sampleRate = 24000, numberOfChannels = 1,
             channelData = [[0, 1 / 2]]\<rparr>) 24000) = 48 \<and>
   rd32 (encodeWav round (Samples \<lparr>sampleRate = 24000, numberOfChannels = 1,
             channelData = [[0, 1 / 2]]\<rparr>) 24000) 28 = 48000"
proof -
  let ?b = "\<lparr>sampleRate = 24000, numberOfChannels = 1, channelData = [[0, 1 / 2 :: real]]\<rparr>"
  have h: "(24000 :: nat) * wavChannels (Samples ?b) * 2 < 4294967296 \<and>
      wavChannels (Samples ?b) * 2 < 65536"
    by (simp add: wavChannels_def)
  have d: "dataByteLength (Samples ?b) = 4"
    by (simp add: dataByteLength_def frameCount_def)
  show ?thesis
    using encodeWav_layout [of round "Samples ?b" 24000 "[0x00, 0x80, 0xFF, 0x7F]"] h d
    by (simp add: wavChannels_def)
qed

section \<open>The PCM decoder: basic facts\<close>

lemma uint_byte_range: "0 \<le> uint (b :: 8 word) \<and> uint b < 256"
proof -
  have "uint b < 2 ^ LENGTH(8)" by (rule unsigned_less)
  then show ?thesis by simp
qed

lemma int16_le_range: "- 32768 \<le> int16_le lo hi \<and> int16_le lo hi \<le> 32767"
proof -
  define u where "u = uint lo + 256 * uint hi"
  have "0 \<le> u \<and> u < 65536"
    using uint_byte_range [of lo] uint_byte_range [of hi] unfolding u_def by linarith
  moreover have "int16_le lo hi = (if u < 32768 then u else u - 65536)"
    by (simp add: int16_le_def Let_def u_def)
  ultimately show ?thesis
    by (simp split: if_splits)
qed

lemma length_pcm_samples: "length (pcm_samples bytes) = length bytes div 2"
  by (induction bytes rule: pcm_samples.induct) simp_all

lemma pcm_samples_range: "x \<in> set (pcm_samples bytes) \<Longrightarrow> - 1 \<le> x \<and> x < 1"
proof (induction bytes rule: pcm_samples.induct)
  case (1 lo hi rest)
  have "- 32768 \<le> real_of_int (int16_le lo hi)" "real_of_int (int16_le lo hi) \<le> 32767"
    using int16_le_range [of lo hi] by linarith+
  then have "- 1 \<le> real_of_int (int16_le lo hi) / 32768 \<and> real_of_int (int16_le lo hi) / 32768 < 1"
    by simp
  with 1 show ?case by auto
qed simp_all

lemma pcm_samples_nth:
  "i < length bytes div 2 \<Longrightarrow>
     pcm_samples bytes ! i = real_of_int (int16_le (bytes ! (2 * i)) (bytes ! (2 * i + 1))) / 32768"
proof (induction bytes arbitrary: i rule: pcm_samples.induct)
  case (1 lo hi rest)
  then show ?case by (cases i) simp_all
qed simp_all

lemma pcm_samples_take: "pcm_samples (take (2 * k) bytes) = take k (pcm_samples bytes)"
proof (induction bytes arbitrary: k rule: pcm_samples.induct)
  case (1 lo hi rest)
  then show ?case by (cases k) simp_all
next
  case (2 b)
  then show ?case by (cases k) simp_all
qed simp_all

lemma decodePcm_mono:
  "0 < rate \<Longrightarrow>
     decodePcm bytes rate 1 =
       Inr \<lparr>sampleRate = rate, numberOfChannels = 1, channelData = [pcm_samples bytes]\<rparr>"
  by (simp add: decodePcm_def Let_def map_nth)

lemma decodePcm_truncates:
  assumes "0 < rate" and "0 < channelCount"
  shows "decodePcm (take (2 * (nat channelCount * (length bytes div (2 * nat channelCount)))) bytes)
           rate channelCount = decodePcm bytes rate channelCount"
proof -
  let ?n = "nat channelCount"
  let ?xs = "pcm_samples bytes"
  let ?f = "length ?xs div ?n"
  have n: "0 < ?n" using assms(2) by simp
  have f: "length bytes div (2 * ?n) = ?f"
    by (simp add: length_pcm_samples div_mult2_eq)
  have le: "?n * ?f \<le> length ?xs"
    by (rule times_div_less_eq_dividend)
  have len: "length (take (?n * ?f) ?xs) div ?n = ?f"
    using le n by (simp add: min_absorb2)
  have idx: "take (?n * ?f) ?xs ! (i * ?n + c) = ?xs ! (i * ?n + c)" if "i < ?f" "c < ?n" for i c
  proof -
    have "i * ?n + c < Suc i * ?n" using that(2) by simp
    also have "\<dots> \<le> ?f * ?n" using that(1) by (simp add: Suc_leI mult_le_mono1 del: mult_Suc)
    finally show ?thesis by (simp add: mult.commute)
  qed
  have "map (\<lambda>c. map (\<lambda>i. take (?n * ?f) ?xs ! (i * ?n + c)) [0..<?f]) [0..<?n]
      = map (\<lambda>c. map (\<lambda>i. ?xs ! (i * ?n + c)) [0..<?f]) [0..<?n]"
    by (intro map_cong refl) (simp add: idx)
  then show ?thesis
    using assms by (simp add: decodePcm_def Let_def f pcm_samples_take len)
qed

section \<open>Decoded samples\<close>

text \<open>
  C6. A byte buffer of length \<open>L\<close>, decoded as mono 16-bit PCM at a positive sample rate,
  yields without error a buffer of exactly \<open>L div 2\<close> samples; sample \<open>i\<close> is the
  little-endian signed 16-bit integer of bytes \<open>2i\<close> and \<open>2i + 1\<close> divided by 32768, and
  lies in \<open>[-1, 1)\<close>. For every positive channel count the decoder succeeds and the bytes
  beyond the last whole frame do not matter: decoding the buffer cut to a multiple of
  \<open>2 * channelCount\<close> bytes gives the same result.
\<close>

theorem decodePcm_length_and_range:
  assumes "0 < rate"
  shows "decodePcm bytes rate 1 =
           Inr \<lparr>sampleRate = rate, numberOfChannels = 1, channelData = [pcm_samples bytes]\<rparr> \<and>
         decodeAudioData bytes rate 1 = decodePcm bytes rate 1 \<and>
         length (pcm_samples bytes) = length bytes div 2 \<and>
         (\<forall>x \<in> set (pcm_samples bytes). - 1 \<le> x \<and> x < 1) \<and>
         (\<forall>i < length bytes div 2.
            pcm_samples bytes ! i =
              real_of_int (int16_le (bytes ! (2 * i)) (bytes ! (2 * i + 1))) / 32768) \<and>
         (\<forall>channelCount > 0.
            (\<exists>buf. decodePcm bytes rate channelCount = Inr buf \<and>
               numberOfChannels buf = nat channelCount \<and>
               length (channelData buf) = nat channelCount \<and>
               (\<forall>ch \<in> set (channelData buf).
                  length ch = length bytes div 2 div nat channelCount)) \<and>
            decodePcm (take (2 * (nat channelCount * (length bytes div (2 * nat channelCount)))) bytes)
              rate channelCount = decodePcm bytes rate channelCount)"
proof -
  have multi: "(\<exists>buf. decodePcm bytes rate channelCount = Inr buf \<and>
               numberOfChannels buf = nat channelCount \<and>
               length (channelData buf) = nat channelCount \<and>
               (\<forall>ch \<in> set (channelData buf).
                  length ch = length bytes div 2 div nat channelCount))"
    if "0 < channelCount" for channelCount
    using assms that by (auto simp add: decodePcm_def Let_def length_pcm_samples)
  show ?thesis
    using decodePcm_mono [OF assms] length_pcm_samples [of bytes] pcm_samples_range [of _ bytes]
      pcm_samples_nth [of _ bytes] multi decodePcm_truncates [OF assms]
    by (simp add: decodeAudioData_def)
qed

theorem decodePcm_length_and_range_witness:
  "decodePcm [0x00, 0x80, 0xFF, 0x7F, 0x01] 24000 1 =
     Inr \<lparr>sampleRate = 24000, numberOfChannels = 1, channelData = [[- 1, 32767 / 32768]]\<rparr> \<and>
   length (pcm_samples [0x00, 0x80, 0xFF, 0x7F, 0x01]) = 2 \<and>
   decodePcm [0x00, 0x80, 0xFF, 0x7F] 24000 1 = decodePcm [0x00, 0x80, 0xFF, 0x7F, 0x01] 24000 1"
proof -
  have h: "(0::int) < 24000" by simp
  have s: "pcm_samples [0x00, 0x80, 0xFF, 0x7F, 0x01] = [- 1, 32767 / 32768]"
    by (simp add: int16_le_def)
  have t: "pcm_samples [0x00, 0x80, 0xFF, 0x7F] = [- 1, 32767 / 32768]"
    by (simp add: int16_le_def)
  show ?thesis
    using decodePcm_length_and_range [OF h, of "[0x00, 0x80, 0xFF, 0x7F, 0x01]"]
      decodePcm_length_and_range [OF h, of "[0x00, 0x80, 0xFF, 0x7F]"] s t
    by simp
qed

section \<open>The base64 codec: basic facts\<close>

lemma length_alphabet: "length alphabet = 64"
  by (simp add: alphabet_def)

lemma distinct_alphabet: "distinct alphabet"
  by (simp add: alphabet_def)

lemma pad_not_in_alphabet: "CHR ''='' \<notin> set alphabet"
  by (simp add: alphabet_def)

lemma char_sextet_sextet_char: "n < 64 \<Longrightarrow> char_sextet (sextet_char n) = Some n"
  using map_of_zip_nth [of alphabet "[0..<64]" n]
  by (simp add: char_sextet_def sextet_char_def length_alphabet distinct_alphabet)

lemma char_sextet_SomeD:
  assumes "char_sextet c = Some n"
  shows "n < 64 \<and> sextet_char n = c"
proof -
  from assms have "(c, n) \<in> set (zip alphabet [0..<64])"
    unfolding char_sextet_def by (rule map_of_SomeD)
  then obtain i where "i < 64" "alphabet ! i = c" "[0..<64] ! i = n"
    by (auto simp add: in_set_zip length_alphabet)
  then show ?thesis
    by (simp add: sextet_char_def)
qed

lemma char_sextet_None: "char_sextet c = None \<longleftrightarrow> c \<notin> set alphabet"
  by (simp add: char_sextet_def map_of_eq_None_iff length_alphabet flip: set_map)

lemma sextet_char_in_alphabet: "n < 64 \<Longrightarrow> sextet_char n \<in> set alphabet"
  by (simp add: sextet_char_def length_alphabet)

lemma sextet_char_not_pad: "n < 64 \<Longrightarrow> sextet_char n \<noteq> CHR ''=''"
  using sextet_char_in_alphabet [of n] pad_not_in_alphabet by auto

lemma unat_byte_less: "unat (b :: 8 word) < 256"
proof -
  have "unat b < 2 ^ LENGTH(8)" by (rule unsigned_less)
  then show ?thesis by simp
qed

lemma encode_sextets_range: "n \<in> set (encode_sextets bytes) \<Longrightarrow> n < 64"
proof (induction bytes rule: encode_sextets.induct)
  case (2 a)
  then show ?case using unat_byte_less [of a] by auto
next
  case (3 a b)
  then show ?case using unat_byte_less [of a] unat_byte_less [of b] by auto
next
  case (4 a b c rest)
  then show ?case
    using unat_byte_less [of a] unat_byte_less [of b] unat_byte_less [of c] by auto
qed simp

lemma split16: "(m::nat) < 16 \<Longrightarrow> (k * 16 + m) div 16 = k \<and> (k * 16 + m) mod 16 = m"
  by simp

lemma split4: "(m::nat) < 4 \<Longrightarrow> (k * 4 + m) div 4 = k \<and> (k * 4 + m) mod 4 = m"
  by simp

lemma split64: "(m::nat) < 64 \<Longrightarrow> (k * 64 + m) div 64 = k \<and> (k * 64 + m) mod 64 = m"
  by simp

lemma byte_parts:
  "(y::nat) < 256 \<Longrightarrow> y div 16 < 16"
  "(y::nat) < 256 \<Longrightarrow> y div 64 < 4"
  "(y::nat) < 256 \<Longrightarrow> y div 4 < 64"
  "(q::nat) < 64 \<Longrightarrow> q div 16 < 4"
  "(q::nat) < 64 \<Longrightarrow> q div 4 < 16"
  by simp_all

lemma first_byte:
  fixes x y :: nat
  assumes "y < 256"
  shows "x div 4 * 4 + (x mod 4 * 16 + y div 16) div 16 = x"
proof -
  have "(x mod 4 * 16 + y div 16) div 16 = x mod 4"
    using split16 [of "y div 16" "x mod 4"] byte_parts(1) [OF assms] by simp
  then show ?thesis by simp
qed

lemma second_byte:
  fixes x y z :: nat
  assumes "y < 256" and "z < 256"
  shows "(x mod 4 * 16 + y div 16) mod 16 * 16 + (y mod 16 * 4 + z div 64) div 4 = y"
proof -
  have "(x mod 4 * 16 + y div 16) mod 16 = y div 16"
    using split16 [of "y div 16" "x mod 4"] byte_parts(1) [OF assms(1)] by simp
  moreover have "(y mod 16 * 4 + z div 64) div 4 = y mod 16"
    using split4 [of "z div 64" "y mod 16"] byte_parts(2) [OF assms(2)] by simp
  ultimately show ?thesis by simp
qed

lemma third_byte:
  fixes y z :: nat
  assumes "z < 256"
  shows "(y mod 16 * 4 + z div 64) mod 4 * 64 + z mod 64 = z"
proof -
  have "(y mod 16 * 4 + z div 64) mod 4 = z div 64"
    using split4 [of "z div 64" "y mod 16"] byte_parts(2) [OF assms] by simp
  then show ?thesis by simp
qed

lemma of_nat_unat_byte: "(of_nat (unat (a :: 8 word)) :: 8 word) = a"
  by simp

lemma decode_encode_sextets: "decode_sextets (encode_sextets bytes) = Inr bytes"
proof (induction bytes rule: encode_sextets.induct)
  case 1
  show ?case by simp
next
  case (2 a)
  have "unat a div 4 * 4 + (unat a mod 4 * 16 + 0 div 16) div 16 = unat a"
    by (rule first_byte) simp
  then have "(of_nat (unat a div 4 * 4 + unat a mod 4 * 16 div 16) :: 8 word) = a"
    by simp
  then show ?case by simp
next
  case (3 a b)
  have "unat a div 4 * 4 + (unat a mod 4 * 16 + unat b div 16) div 16 = unat a"
    by (rule first_byte) (rule unat_byte_less)
  moreover have "(unat a mod 4 * 16 + unat b div 16) mod 16 * 16 + (unat b mod 16 * 4 + 0 div 64) div 4
      = unat b"
    by (rule second_byte) (simp_all add: unat_byte_less)
  ultimately show ?case by simp
next
  case (4 a b c rest)
  have "unat a div 4 * 4 + (unat a mod 4 * 16 + unat b div 16) div 16 = unat a"
    by (rule first_byte) (rule unat_byte_less)
  moreover have "(unat a mod 4 * 16 + unat b div 16) mod 16 * 16
      + (unat b mod 16 * 4 + unat c div 64) div 4 = unat b"
    by (rule second_byte) (simp_all add: unat_byte_less)
  moreover have "(unat b mod 16 * 4 + unat c div 64) mod 4 * 64 + unat c mod 64 = unat c"
    by (rule third_byte) (rule unat_byte_less)
  ultimately show ?case using 4 by simp
qed

lemma unat_of_small: "n < 256 \<Longrightarrow> unat (of_nat n :: 8 word) = n"
  by (simp add: unat_of_nat)

lemma head_byte:
  fixes p q :: nat
  assumes "p < 64" and "q < 64"
  shows "p * 4 + q div 16 < 256" and "(p * 4 + q div 16) div 4 = p"
    and "(p * 4 + q div 16) mod 4 = q div 16"
proof -
  have q: "q div 16 < 4" using assms(2) by simp
  show "p * 4 + q div 16 < 256" using assms(1) q by simp
  show "(p * 4 + q div 16) div 4 = p" using split4 [OF q, of p] by simp
  show "(p * 4 + q div 16) mod 4 = q div 16" using split4 [OF q, of p] by simp
qed

lemma middle_byte:
  fixes q r :: nat
  assumes "r < 64"
  shows "q mod 16 * 16 + r div 4 < 256" and "(q mod 16 * 16 + r div 4) div 16 = q mod 16"
    and "(q mod 16 * 16 + r div 4) mod 16 = r div 4"
proof -
  have r: "r div 4 < 16" using assms by simp
  have "q mod 16 < 16" by simp
  then have "q mod 16 * 16 \<le> 240" by simp
  then show "q mod 16 * 16 + r div 4 < 256" using r by simp
  show "(q mod 16 * 16 + r div 4) div 16 = q mod 16" using split16 [OF r, of "q mod 16"] by simp
  show "(q mod 16 * 16 + r div 4) mod 16 = r div 4" using split16 [OF r, of "q mod 16"] by simp
qed

lemma tail_byte:
  fixes r t :: nat
  assumes "t < 64"
  shows "r mod 4 * 64 + t < 256" and "(r mod 4 * 64 + t) div 64 = r mod 4"
    and "(r mod 4 * 64 + t) mod 64 = t"
proof -
  have "r mod 4 < 4" by simp
  then have "r mod 4 * 64 \<le> 192" by simp
  then show "r mod 4 * 64 + t < 256" using assms by simp
  show "(r mod 4 * 64 + t) div 64 = r mod 4" using split64 [OF assms, of "r mod 4"] by simp
  show "(r mod 4 * 64 + t) mod 64 = t" using split64 [OF assms, of "r mod 4"] by simp
qed

lemma rejoin16: "(q::nat) div 16 * 16 + q mod 16 = q"
  by simp

lemma rejoin4: "(r::nat) div 4 * 4 + r mod 4 = r"
  by simp

text \<open>When the bits that belong to no byte are zero, re-encoding gives the groups back.\<close>

lemma encode_decode_sextets:
  assumes "\<forall>n \<in> set ds. n < 64"
    and "length ds mod 4 = 0 \<or> (length ds mod 4 = 2 \<and> last ds mod 16 = 0)
         \<or> (length ds mod 4 = 3 \<and> last ds mod 4 = 0)"
  shows "\<exists>bytes. decode_sextets ds = Inr bytes \<and> encode_sextets bytes = ds \<and>
           (3 - length bytes mod 3) mod 3 = (4 - length ds mod 4) mod 4"
  using assms
proof (induction ds rule: decode_sextets.induct)
  case 1
  show ?case by simp
next
  case (2 p)
  then show ?case by simp
next
  case (3 p q)
  then have p: "p < 64" and q: "q < 64" and z: "q mod 16 = 0" by simp_all
  define a :: "8 word" where "a = of_nat (p * 4 + q div 16)"
  have ua: "unat a = p * 4 + q div 16"
    unfolding a_def by (rule unat_of_small) (rule head_byte(1) [OF p q])
  have again: "q div 16 * 16 = q" using rejoin16 [of q] z by simp
  have dec: "decode_sextets [p, q] = Inr [a]"
    using z by (simp add: a_def)
  have da: "unat a div 4 = p" "unat a mod 4 = q div 16"
    by (simp_all only: ua head_byte [OF p q])
  have enc: "encode_sextets [a] = [p, q]"
    by (simp add: da again)
  show ?case
    unfolding dec using enc by simp
next
  case (4 p q r)
  then have p: "p < 64" and q: "q < 64" and r: "r < 64" and z: "r mod 4 = 0" by simp_all
  define a :: "8 word" where "a = of_nat (p * 4 + q div 16)"
  define b :: "8 word" where "b = of_nat (q mod 16 * 16 + r div 4)"
  have ua: "unat a = p * 4 + q div 16"
    unfolding a_def by (rule unat_of_small) (rule head_byte(1) [OF p q])
  have ub: "unat b = q mod 16 * 16 + r div 4"
    unfolding b_def by (rule unat_of_small) (rule middle_byte(1) [OF r])
  have again: "r div 4 * 4 = r" using rejoin4 [of r] z by simp
  have dec: "decode_sextets [p, q, r] = Inr [a, b]"
    using z by (simp add: a_def b_def)
  have da: "unat a div 4 = p" "unat a mod 4 = q div 16"
    by (simp_all only: ua head_byte [OF p q])
  have db: "unat b div 16 = q mod 16" "unat b mod 16 = r div 4"
    by (simp_all only: ub middle_byte [OF r])
  have enc: "encode_sextets [a, b] = [p, q, r]"
    by (simp add: da db again)
  show ?case
    unfolding dec using enc by simp
next
  case (5 p q r t rest)
  then have p: "p < 64" and q: "q < 64" and r: "r < 64" and t: "t < 64"
    and rest: "\<forall>n \<in> set rest. n < 64" by simp_all
  have "length (p # q # r # t # rest) = length rest + 4" by simp
  then have len: "length (p # q # r # t # rest) mod 4 = length rest mod 4"
    by (simp only: mod_add_self2)
  have shape: "length rest mod 4 = 0 \<or> (length rest mod 4 = 2 \<and> last rest mod 16 = 0)
         \<or> (length rest mod 4 = 3 \<and> last rest mod 4 = 0)"
  proof (cases "rest = []")
    case True
    then show ?thesis by simp
  next
    case False
    then have lst: "last (p # q # r # t # rest) = last rest" by simp
    show ?thesis using "5.prems"(2) unfolding len lst by blast
  qed
  from "5.IH" [OF rest shape] obtain bytes where
    bytes: "decode_sextets rest = Inr bytes" "encode_sextets bytes = rest"
      "(3 - length bytes mod 3) mod 3 = (4 - length rest mod 4) mod 4"
    by blast
  define a :: "8 word" where "a = of_nat (p * 4 + q div 16)"
  define b :: "8 word" where "b = of_nat (q mod 16 * 16 + r div 4)"
  define c :: "8 word" where "c = of_nat (r mod 4 * 64 + t)"
  have ua: "unat a = p * 4 + q div 16"
    unfolding a_def by (rule unat_of_small) (rule head_byte(1) [OF p q])
  have ub: "unat b = q mod 16 * 16 + r div 4"
    unfolding b_def by (rule unat_of_small) (rule middle_byte(1) [OF r])
  have uc: "unat c = r mod 4 * 64 + t"
    unfolding c_def by (rule unat_of_small) (rule tail_byte(1) [OF t])
  have dec: "decode_sextets (p # q # r # t # rest) = Inr (a # b # c # bytes)"
    by (simp add: bytes(1) a_def b_def c_def)
  have da: "unat a div 4 = p" "unat a mod 4 = q div 16"
    by (simp_all only: ua head_byte [OF p q])
  have db: "unat b div 16 = q mod 16" "unat b mod 16 = r div 4"
    by (simp_all only: ub middle_byte [OF r])
  have dc: "unat c div 64 = r mod 4" "unat c mod 64 = t"
    by (simp_all only: uc tail_byte [OF t])
  have enc: "encode_sextets (a # b # c # bytes) = p # q # r # t # rest"
    by (simp add: da db dc bytes(2))
  have "length (a # b # c # bytes) = length bytes + 3" by simp
  then have len3: "length (a # b # c # bytes) mod 3 = length bytes mod 3"
    by (simp only: mod_add_self2)
  show ?case
    unfolding dec using enc bytes(3) len len3 by (simp del: length_Cons list.size)
qed

lemma those_sextets:
  "\<forall>n \<in> set ds. n < 64 \<Longrightarrow> those (map char_sextet (map sextet_char ds)) = Some ds"
  by (induction ds) (simp_all add: char_sextet_sextet_char)

lemma those_chars:
  assumes "those (map char_sextet cs) = Some ds"
  shows "map sextet_char ds = cs \<and> (\<forall>n \<in> set ds. n < 64) \<and> length ds = length cs \<and>
         list_all (\<lambda>c. c \<in> set alphabet) cs \<and> (cs \<noteq> [] \<longrightarrow> last ds = last_sextet cs)"
  using assms
proof (induction cs arbitrary: ds)
  case Nil
  then show ?case by simp
next
  case (Cons c cs)
  from Cons.prems obtain n ds' where n: "char_sextet c = Some n"
    and ds': "those (map char_sextet cs) = Some ds'" and ds: "ds = n # ds'"
    by (auto split: option.splits)
  note IH = Cons.IH [OF ds']
  have c: "n < 64 \<and> sextet_char n = c"
    by (rule char_sextet_SomeD [OF n])
  have inA: "c \<in> set alphabet"
    using n char_sextet_None [of c] by auto
  have lst: "last (n # ds') = last_sextet (c # cs)"
  proof (cases "cs = []")
    case True
    then show ?thesis using IH n by (simp add: last_sextet_def)
  next
    case False
    then have "ds' \<noteq> []" using IH by auto
    then show ?thesis using False IH by (simp add: last_sextet_def)
  qed
  show ?case
    using IH c inA lst by (simp add: ds)
qed

lemma those_alphabet:
  "list_all (\<lambda>c. c \<in> set alphabet) cs \<Longrightarrow> \<exists>ds. those (map char_sextet cs) = Some ds"
proof (induction cs)
  case Nil
  then show ?case by simp
next
  case (Cons c cs)
  then obtain ds where "those (map char_sextet cs) = Some ds" by auto
  moreover obtain n where "char_sextet c = Some n"
    using Cons.prems char_sextet_None [of c] by (cases "char_sextet c") auto
  ultimately show ?case by simp
qed

lemma body_of_encoded:
  assumes "\<forall>n \<in> set ds. n < 64"
  shows "body (map sextet_char ds @ replicate k (CHR ''='')) = map sextet_char ds"
    and "padding (map sextet_char ds @ replicate k (CHR ''='')) = replicate k (CHR ''='')"
proof -
  have all: "\<forall>c \<in> set (map sextet_char ds). c \<noteq> CHR ''=''"
    using assms by (auto simp add: sextet_char_not_pad)
  have tw: "takeWhile (\<lambda>c. c \<noteq> CHR ''='') (replicate k (CHR ''='')) = []"
    by (cases k) simp_all
  have dw: "dropWhile (\<lambda>c. c \<noteq> CHR ''='') (replicate k (CHR ''='')) = replicate k (CHR ''='')"
    by (cases k) simp_all
  have "takeWhile (\<lambda>c. c \<noteq> CHR ''='') (map sextet_char ds @ replicate k (CHR ''=''))
      = map sextet_char ds @ takeWhile (\<lambda>c. c \<noteq> CHR ''='') (replicate k (CHR ''=''))"
    by (rule takeWhile_append2) (use all in blast)
  then show "body (map sextet_char ds @ replicate k (CHR ''='')) = map sextet_char ds"
    unfolding body_def by (simp only: tw append_Nil2)
  have "dropWhile (\<lambda>c. c \<noteq> CHR ''='') (map sextet_char ds @ replicate k (CHR ''=''))
      = dropWhile (\<lambda>c. c \<noteq> CHR ''='') (replicate k (CHR ''=''))"
    by (rule dropWhile_append2) (use all in blast)
  then show "padding (map sextet_char ds @ replicate k (CHR ''='')) = replicate k (CHR ''='')"
    unfolding padding_def by (simp only: dw)
qed

lemma length_encode_sextets:
  "length (encode_sextets bytes) + (3 - length bytes mod 3) mod 3 = 4 * ((length bytes + 2) div 3)"
proof (induction bytes rule: encode_sextets.induct)
  case (4 a b c rest)
  have "length (a # b # c # rest) = length rest + 3" by simp
  then have m: "length (a # b # c # rest) mod 3 = length rest mod 3"
    by (simp only: mod_add_self2)
  have d: "(length (a # b # c # rest) + 2) div 3 = (length rest + 2) div 3 + 1"
    by simp
  have "length (encode_sextets (a # b # c # rest)) = length (encode_sextets rest) + 4"
    by simp
  then show ?case
    using 4 unfolding m d by simp
qed simp_all

lemma padding_ok_encode: "padding_ok (encode bytes)"
proof -
  let ?k = "(3 - length bytes mod 3) mod 3"
  have k: "?k = 0 \<or> ?k = 1 \<or> ?k = 2" by arith
  have rep: "replicate ?k (CHR ''='') = [] \<or> replicate ?k (CHR ''='') = ''=''
      \<or> replicate ?k (CHR ''='') = ''==''"
    using k by (auto simp add: numeral_2_eq_2)
  have "length (encode bytes) = 4 * ((length bytes + 2) div 3)"
    using length_encode_sextets [of bytes] by (simp add: encode_def)
  then have four: "length (encode bytes) mod 4 = 0" by simp
  have "padding (encode bytes) = replicate ?k (CHR ''='')"
    unfolding encode_def by (rule body_of_encoded(2)) (simp add: encode_sextets_range)
  then show ?thesis
    using rep four by (auto simp add: padding_ok_def)
qed

lemma decode_encode: "decode (encode bytes) = Inr bytes"
proof -
  have "body (encode bytes) = map sextet_char (encode_sextets bytes)"
    unfolding encode_def by (rule body_of_encoded(1)) (simp add: encode_sextets_range)
  then show ?thesis
    by (simp add: decode_def padding_ok_encode those_sextets encode_sextets_range
        decode_encode_sextets del: map_map)
qed

lemma decode_sextets_error: "decode_sextets ds = Inl e \<Longrightarrow> e = MalformedInputError"
  by (induction ds arbitrary: e rule: decode_sextets.induct) (auto split: if_splits sum.splits)

lemma decode_sextets_shape:
  "decode_sextets ds = Inr bytes \<Longrightarrow>
     length ds mod 4 = 0 \<or> (length ds mod 4 = 2 \<and> last ds mod 16 = 0)
       \<or> (length ds mod 4 = 3 \<and> last ds mod 4 = 0)"
proof (induction ds arbitrary: bytes rule: decode_sextets.induct)
  case (5 p q r t rest)
  from "5.prems" obtain bs where bs: "decode_sextets rest = Inr bs"
    by (auto split: sum.splits)
  have "length (p # q # r # t # rest) = length rest + 4" by simp
  then have len: "length (p # q # r # t # rest) mod 4 = length rest mod 4"
    by (simp only: mod_add_self2)
  show ?case
  proof (cases "rest = []")
    case True
    then show ?thesis by simp
  next
    case False
    then have lst: "last (p # q # r # t # rest) = last rest" by simp
    show ?thesis using "5.IH" [OF bs] unfolding len lst by blast
  qed
qed (auto split: if_splits)

lemma decode_valid:
  assumes "valid_base64 s"
  shows "\<exists>bytes. decode s = Inr bytes \<and> encode bytes = canonical_padding s"
proof -
  from assms have chars: "list_all (\<lambda>c. c \<in> set alphabet) (body s)" and pad: "padding_ok s"
    and shape: "length (body s) mod 4 = 0 \<or>
      (length (body s) mod 4 = 2 \<and> last_sextet (body s) mod 16 = 0) \<or>
      (length (body s) mod 4 = 3 \<and> last_sextet (body s) mod 4 = 0)"
    by (simp_all add: valid_base64_def)
  from those_alphabet [OF chars] obtain ds where ds: "those (map char_sextet (body s)) = Some ds"
    by blast
  note props = those_chars [OF ds]
  have len: "length ds = length (body s)" using props by simp
  have small: "\<forall>n \<in> set ds. n < 64" using props by simp
  have lst: "last ds = last_sextet (body s)" if "length (body s) mod 4 \<noteq> 0"
  proof -
    from that have "body s \<noteq> []" by auto
    then show ?thesis using props by simp
  qed
  have shape': "length ds mod 4 = 0 \<or> (length ds mod 4 = 2 \<and> last ds mod 16 = 0)
         \<or> (length ds mod 4 = 3 \<and> last ds mod 4 = 0)"
    using shape lst unfolding len by auto
  from encode_decode_sextets [OF small shape'] obtain bytes where
    bytes: "decode_sextets ds = Inr bytes" "encode_sextets bytes = ds"
      "(3 - length bytes mod 3) mod 3 = (4 - length ds mod 4) mod 4"
    by blast
  have "decode s = Inr bytes"
    by (simp add: decode_def pad ds bytes(1))
  moreover have "encode bytes = canonical_padding s"
    using props by (simp add: encode_def canonical_padding_def bytes(2) bytes(3) len)
  ultimately show ?thesis by blast
qed

lemma decode_Inr_valid:
  assumes "decode s = Inr bytes"
  shows "valid_base64 s"
proof -
  from assms have pad: "padding_ok s"
    by (simp add: decode_def split: if_splits)
  from assms obtain ds where ds: "those (map char_sextet (body s)) = Some ds"
    and dec: "decode_sextets ds = Inr bytes"
    by (auto simp add: decode_def split: if_splits option.splits)
  note props = those_chars [OF ds]
  have len: "length ds = length (body s)" using props by simp
  have lst: "last ds = last_sextet (body s)" if "length (body s) mod 4 \<noteq> 0"
  proof -
    from that have "body s \<noteq> []" by auto
    then show ?thesis using props by simp
  qed
  have "length (body s) mod 4 = 0 \<or>
      (length (body s) mod 4 = 2 \<and> last_sextet (body s) mod 16 = 0) \<or>
      (length (body s) mod 4 = 3 \<and> last_sextet (body s) mod 4 = 0)"
    using decode_sextets_shape [OF dec] lst unfolding len by auto
  then show ?thesis
    using props pad by (simp add: valid_base64_def)
qed

lemma decode_error: "decode s = Inl e \<Longrightarrow> e = MalformedInputError"
  by (auto simp add: decode_def split: if_splits option.splits dest: decode_sextets_error)

section \<open>Base64 round trips\<close>

text \<open>
  C7. For every byte buffer \<open>b\<close>, \<open>decode (encode b) = b\<close>, and the encoder's output is
  valid and canonically padded. For every valid base64 string \<open>s\<close>, decoding succeeds and
  encoding the result gives \<open>s\<close> with its padding made canonical. On every string that is
  not valid base64 the decoder fails with \<open>MalformedInputError\<close>.
\<close>

theorem base64_round_trip:
  "decode (encode bytes) = Inr bytes \<and>
   valid_base64 (encode bytes) \<and>
   canonical_padding (encode bytes) = encode bytes \<and>
   (valid_base64 s \<longrightarrow> (\<exists>b. decode s = Inr b \<and> encode b = canonical_padding s)) \<and>
   (\<not> valid_base64 s \<longrightarrow> decode s = Inl MalformedInputError)"
proof -
  have one: "decode (encode bytes) = Inr bytes"
    by (rule decode_encode)
  have two: "valid_base64 (encode bytes)"
    by (rule decode_Inr_valid [OF one])
  from decode_valid [OF two] one have three: "canonical_padding (encode bytes) = encode bytes"
    by auto
  have four: "\<exists>b. decode s = Inr b \<and> encode b = canonical_padding s" if "valid_base64 s"
    by (rule decode_valid [OF that])
  have five: "decode s = Inl MalformedInputError" if "\<not> valid_base64 s"
  proof (cases "decode s")
    case (Inl e)
    then show ?thesis using decode_error [OF Inl] by simp
  next
    case (Inr b)
    then show ?thesis using decode_Inr_valid [OF Inr] that by simp
  qed
  show ?thesis
    using one two three four five by blast
qed

theorem base64_round_trip_witness:
  "encode [0, 128, 255] = ''AID/'' \<and>
   decode ''AID/'' = Inr [0, 128, 255] \<and>
   valid_base64 ''AAA'' \<and>
   canonical_padding ''AAA'' = ''AAA='' \<and>
   decode ''AAA'' = Inr [0, 0] \<and>
   encode [0, 0] = ''AAA='' \<and>
   \<not> valid_base64 ''/x=='' \<and>
   decode ''/x=='' = Inl MalformedInputError \<and>
   decode ''A?=='' = Inl MalformedInputError"
proof -
  have e: "encode [0, 128, 255] = ''AID/''" "encode [0, 0] = ''AAA=''" by code_simp+
  have v: "valid_base64 ''AAA''" "canonical_padding ''AAA'' = ''AAA=''"
    "\<not> valid_base64 ''/x==''" "\<not> valid_base64 ''A?==''" "decode ''AAA'' = Inr [0, 0]"
    by code_simp+
  show ?thesis
    using base64_round_trip [of "[0, 128, 255]" "''/x==''"]
      base64_round_trip [of "[0, 0]" "''A?==''"] e v
    by simp
qed

section \<open>What a play attaches\<close>

lemma startNewAudio_new_source:
  assumes "decode base64 = Inr bytes"
  shows "sources (snd (startNewAudio base64 s)) ! length (sources s)
           = \<lparr>buffer = monoBuffer bytes, playState = Playing\<rparr>"
  by (simp add: startNewAudio_valid [OF assms] startNewAudio_attach_eq
      startNewAudio_prepare_sources nth_append)

lemma startNewAudio_new_context:
  assumes "audioContextRef s = None"
  shows "contexts (snd (startNewAudio base64 s)) ! length (contexts s)
           = \<lparr>ctxSampleRate = 24000, ctxState = Running\<rparr>"
  by (simp add: startNewAudio_contexts startNewAudio_prepare_contexts_None [OF assms])

lemma playAudio_new_source:
  assumes "decode base64 = Inr bytes"
    and "\<forall>i. activeSourceRef s = Some i \<longrightarrow> source_state s i \<noteq> Some Unstarted"
  shows "sources (snd (playAudio (Some base64) s)) ! length (sources s)
           = \<lparr>buffer = monoBuffer bytes, playState = Playing\<rparr>"
  by (simp add: playAudio_valid [OF assms] Let_def nth_append split: option.split)

lemma no_audio_disables_controls:
  assumes "videoUrl s \<noteq> None"
  shows "\<not> audio_controls_rendered (processVideo (Inr (narration, analysisText, genre)) (Inr None) s) \<and>
         status (processVideo (Inr (narration, analysisText, genre)) (Inr None) s) = COMPLETED \<and>
         error (processVideo (Inr (narration, analysisText, genre)) (Inr None) s) = error s \<and>
         sources (processVideo (Inr (narration, analysisText, genre)) (Inr None) s) = sources s \<and>
         downloadAudio (processVideo (Inr (narration, analysisText, genre)) (Inr None) s) = Inr None"
  using assms
  by (auto simp add: processVideo_def Let_def audio_controls_rendered_def truthy_def downloadAudio_def)

section \<open>The fixed format of the payload\<close>

text \<open>
  C9. Every playback and every export reads the payload as raw PCM at 24000 Hz with one
  channel. With a payload that decodes to \<open>bytes\<close>, the buffer that \<open>startNewAudio\<close> and
  \<open>playAudio\<close> give their new source is \<open>decodeAudioData bytes 24000 1\<close>, whose sample
  rate is 24000 and whose channel count is 1; the context they construct has sample rate
  24000; and both download paths produce \<open>createWavBlob bytes 24000\<close>, whose header
  carries sample rate 24000 and one channel.
\<close>

theorem fixed_format_24000_mono:
  assumes "decode base64 = Inr bytes"
  shows "decodeAudioData bytes 24000 1 = Inr (monoBuffer bytes) \<and>
         sampleRate (monoBuffer bytes) = 24000 \<and>
         numberOfChannels (monoBuffer bytes) = 1 \<and>
         channelData (monoBuffer bytes) = [pcm_samples bytes] \<and>
         fst (startNewAudio base64 s) = None \<and>
         buffer (sources (snd (startNewAudio base64 s)) ! length (sources s)) = monoBuffer bytes \<and>
         (audioContextRef s = None \<longrightarrow>
            ctxSampleRate (contexts (snd (startNewAudio base64 s)) ! length (contexts s)) = 24000) \<and>
         ((\<forall>i. activeSourceRef s = Some i \<longrightarrow> source_state s i \<noteq> Some Unstarted) \<longrightarrow>
            fst (playAudio (Some base64) s) = None \<and>
            buffer (sources (snd (playAudio (Some base64) s)) ! length (sources s))
              = monoBuffer bytes) \<and>
         (\<forall>r. result s = Some r \<and> audioData r = Some base64 \<and> base64 \<noteq> [] \<longrightarrow>
            downloadAudio s = Inr (Some (createWavBlob bytes 24000)) \<and>
            descargar_click s = Inr (Some (createWavBlob bytes 24000))) \<and>
         rd32 (createWavBlob bytes 24000) 24 = 24000 \<and>
         rd16 (createWavBlob bytes 24000) 22 = 1"
proof -
  have buf: "sampleRate (monoBuffer bytes) = 24000 \<and> numberOfChannels (monoBuffer bytes) = 1 \<and>
      channelData (monoBuffer bytes) = [pcm_samples bytes]"
    by (simp add: monoBuffer_def)
  have web: "fst (startNewAudio base64 s) = None \<and>
      buffer (sources (snd (startNewAudio base64 s)) ! length (sources s)) = monoBuffer bytes"
    by (simp add: startNewAudio_play(1) [OF assms] startNewAudio_new_source [OF assms])
  have ctx: "ctxSampleRate (contexts (snd (startNewAudio base64 s)) ! length (contexts s)) = 24000"
    if "audioContextRef s = None"
    by (simp add: startNewAudio_new_context [OF that])
  have desk: "fst (playAudio (Some base64) s) = None \<and>
      buffer (sources (snd (playAudio (Some base64) s)) ! length (sources s)) = monoBuffer bytes"
    if "\<forall>i. activeSourceRef s = Some i \<longrightarrow> source_state s i \<noteq> Some Unstarted"
    by (simp add: playAudio_play(1) [OF assms that] playAudio_new_source [OF assms that])
  have export: "downloadAudio s = Inr (Some (createWavBlob bytes 24000)) \<and>
      descargar_click s = Inr (Some (createWavBlob bytes 24000))"
    if "result s = Some r \<and> audioData r = Some base64 \<and> base64 \<noteq> []" for r
    using that assms
    by (simp add: downloadAudio_def descargar_click_def decode_value_def truthy_def)
  have hdr: "rd32 (createWavBlob bytes 24000) 24 = 24000 \<and> rd16 (createWavBlob bytes 24000) 22 = 1"
    by (simp add: createWavBlob_def encodeWav_def wavHeader_numbers wavChannels_def)
  show ?thesis
    using mono_decodeAudioData [of bytes] buf web ctx desk export hdr by blast
qed

theorem fixed_format_24000_mono_witness:
  "decode ''AAAB'' = Inr [0, 0, 1] \<and>
   sampleRate (buffer (sources (snd (startNewAudio ''AAAB'' (run twoNarrations initialState))) ! 2))
     = 24000 \<and>
   numberOfChannels (buffer (sources (snd (startNewAudio ''AAAB'' (run twoNarrations initialState))) ! 2))
     = 1 \<and>
   downloadAudio (run twoNarrations initialState) = Inr (Some (createWavBlob [0, 0, 1] 24000)) \<and>
   ctxSampleRate (contexts (snd (startNewAudio ''AAAB'' initialState)) ! 0) = 24000 \<and>
   numberOfChannels (buffer (sources (snd (playAudio (Some ''AAAB'') initialState)) ! 0)) = 1"
proof -
  have d: "decode ''AAAB'' = Inr [0, 0, 1]" by code_simp
  have h: "length (sources (run twoNarrations initialState)) = 2"
    "map_option audioData (result (run twoNarrations initialState)) = Some (Some ''AAAB'')"
    by code_simp+
  have i: "audioContextRef initialState = None" "activeSourceRef initialState = None"
    "sources initialState = []" "contexts initialState = []"
    by (simp_all add: initialState_def)
  from h(2) obtain r where r: "result (run twoNarrations initialState) = Some r"
    "audioData r = Some ''AAAB''"
    by auto
  show ?thesis
    using fixed_format_24000_mono [OF d, of "run twoNarrations initialState"]
      fixed_format_24000_mono [OF d, of initialState] d h(1) i r
    by simp
qed

section \<open>A narration without audio\<close>

text \<open>
  C4 holds in the component with full controls and fails in the desktop component. When
  the speech service returns no payload, both store the result with no audio and reach
  \<open>COMPLETED\<close>; the first renders no audio control and its download does nothing, but
  the desktop component renders its play and download buttons for every result, and a
  click on either runs the handler on \<open>undefined\<close>: the play handler constructs the
  audio context and then throws, the download handler throws.
\<close>

theorem desktop_controls_rendered_without_audio:
  "map_option audioData (result desktopNoAudio) = Some None \<and>
   status desktopNoAudio = COMPLETED \<and>
   desktop_audio_controls_rendered desktopNoAudio \<and>
   fst (reproducir_click desktopNoAudio) = Some MalformedInputError \<and>
   audioContextRef desktopNoAudio = None \<and>
   audioContextRef (snd (reproducir_click desktopNoAudio)) = Some 0 \<and>
   descargar_click desktopNoAudio = Inl MalformedInputError \<and>
   map_option audioData (result narrationWithoutAudio) = Some None \<and>
   status narrationWithoutAudio = COMPLETED \<and>
   \<not> audio_controls_rendered narrationWithoutAudio \<and>
   downloadAudio narrationWithoutAudio = Inr None"
  by code_simp

end
